theory Spec2Isabelle
  imports Main
begin

section \<open>Python strings\<close>

text \<open>
  A Python \<open>str\<close> is a sequence of code points. The model uses \<^typ>\<open>string\<close> and reads
  each \<^typ>\<open>char\<close> as the code point of the same number, so it covers the texts whose
  code points lie in U+0000..U+00FF. The byte order mark U+FEFF lies outside that range:
  removing it (the \<open>replace\<close> call of \<open>_extract_messages\<close>) is the identity on every modelled string.
\<close>

definition cp :: "char \<Rightarrow> nat" where
  "cp c = of_char c"

text \<open>\<open>str.isspace\<close>, and \<open>\s\<close> of a \<open>str\<close> pattern.\<close>

definition is_space :: "char \<Rightarrow> bool" where
  "is_space c = ((9 \<le> cp c \<and> cp c \<le> 13) \<or> (28 \<le> cp c \<and> cp c \<le> 32) \<or> cp c = 133 \<or> cp c = 160)"

text \<open>\<open>str.isdecimal\<close>: the characters \<open>int()\<close> accepts as digits.\<close>

definition is_decimal :: "char \<Rightarrow> bool" where
  "is_decimal c = (48 \<le> cp c \<and> cp c \<le> 57)"

text \<open>\<open>str.isdigit\<close> of one character: the decimals and the superscript digits.\<close>

definition is_digit :: "char \<Rightarrow> bool" where
  "is_digit c = (is_decimal c \<or> cp c = 178 \<or> cp c = 179 \<or> cp c = 185)"

text \<open>\<open>\w\<close> of a \<open>str\<close> pattern: \<open>str.isalnum\<close> or the underscore.\<close>

definition is_word :: "char \<Rightarrow> bool" where
  "is_word c =
     (is_decimal c \<or> (65 \<le> cp c \<and> cp c \<le> 90) \<or> cp c = 95 \<or> (97 \<le> cp c \<and> cp c \<le> 122)
      \<or> cp c = 170 \<or> cp c = 178 \<or> cp c = 179 \<or> cp c = 181 \<or> cp c = 185 \<or> cp c = 186
      \<or> (188 \<le> cp c \<and> cp c \<le> 190) \<or> (192 \<le> cp c \<and> cp c \<le> 214)
      \<or> (216 \<le> cp c \<and> cp c \<le> 246) \<or> 248 \<le> cp c)"

text \<open>\<open>s.strip()\<close>.\<close>

definition py_strip :: "string \<Rightarrow> string" where
  "py_strip s = rev (dropWhile is_space (rev (dropWhile is_space s)))"

text \<open>\<open>sep.join(xs)\<close>.\<close>

fun join :: "string \<Rightarrow> string list \<Rightarrow> string" where
  "join sep [] = []"
| "join sep [x] = x"
| "join sep (x # y # ys) = x @ sep @ join sep (y # ys)"

text \<open>\<open>needle in s\<close>.\<close>

fun contains :: "string \<Rightarrow> string \<Rightarrow> bool" where
  "contains needle [] = (needle = [])"
| "contains needle (c # s) = (take (length needle) (c # s) = needle \<or> contains needle s)"

text \<open>\<open>len(s.encode("utf-8"))\<close>: one byte below U+0080, two up to U+00FF.\<close>

definition utf8_len :: "string \<Rightarrow> nat" where
  "utf8_len s = sum_list (map (\<lambda>c. if cp c < 128 then 1 else 2) s)"


section \<open>The regular expressions of the scanner\<close>

text \<open>
  The patterns of the source use literals, the classes \<open>\s\<close>, \<open>\w\<close>, \<open>[\s\S]\<close> and
  \<open>[^\>]\<close> under \<open>*\<close>, \<open>+\<close> and \<open>*?\<close>, an optional group and \<open>\b\<close>, all compiled
  with \<open>re.IGNORECASE\<close>. The matcher below is a backtracking matcher in Python's order
  of preference: greedy repetitions try the longest run first, the lazy one the shortest,
  an optional group is tried before it is skipped.
\<close>

datatype cls = Space | Word | AnyChar | NotGt

fun in_cls :: "cls \<Rightarrow> char \<Rightarrow> bool" where
  "in_cls Space c = is_space c"
| "in_cls Word c = is_word c"
| "in_cls AnyChar c = True"
| "in_cls NotGt c = (c \<noteq> CHR ''>'')"

datatype re =
    Lit string
  | Star cls
  | Plus cls
  | LazyStar cls
  | Opt re
  | Seq re re
  | Boundary

text \<open>A position in the text: the character before it, if any, and the text from it on.\<close>

type_synonym pos = "char option \<times> string"

text \<open>A pattern letter matches itself and, under \<open>IGNORECASE\<close>, its capital.\<close>

definition ci_eq :: "char \<Rightarrow> char \<Rightarrow> bool" where
  "ci_eq p c = (c = p \<or> (65 \<le> cp c \<and> cp c \<le> 90 \<and> cp c + 32 = cp p))"

fun lit :: "string \<Rightarrow> pos \<Rightarrow> pos option" where
  "lit [] q = Some q"
| "lit (p # ps) (pr, []) = None"
| "lit (p # ps) (pr, c # s) = (if ci_eq p c then lit ps (Some c, s) else None)"

definition word_opt :: "char option \<Rightarrow> bool" where
  "word_opt x = (case x of None \<Rightarrow> False | Some c \<Rightarrow> is_word c)"

definition at_boundary :: "pos \<Rightarrow> bool" where
  "at_boundary q = (word_opt (fst q) \<noteq> word_opt (case snd q of [] \<Rightarrow> None | c # _ \<Rightarrow> Some c))"

text \<open>
  \<open>star_greedy c q k\<close>: consume characters of the class as long as possible, then give
  back one at a time until the continuation \<open>k\<close> succeeds. \<open>star_lazy\<close> tries the
  continuation first.
\<close>

fun star_greedy :: "cls \<Rightarrow> char option \<Rightarrow> string \<Rightarrow> (pos \<Rightarrow> 'a option) \<Rightarrow> 'a option" where
  "star_greedy c pr [] k = k (pr, [])"
| "star_greedy c pr (x # s) k =
     (if in_cls c x then
        (case star_greedy c (Some x) s k of
           Some r \<Rightarrow> Some r
         | None \<Rightarrow> k (pr, x # s))
      else k (pr, x # s))"

fun star_lazy :: "cls \<Rightarrow> char option \<Rightarrow> string \<Rightarrow> (pos \<Rightarrow> 'a option) \<Rightarrow> 'a option" where
  "star_lazy c pr [] k = k (pr, [])"
| "star_lazy c pr (x # s) k =
     (case k (pr, x # s) of
        Some r \<Rightarrow> Some r
      | None \<Rightarrow> (if in_cls c x then star_lazy c (Some x) s k else None))"

fun run :: "re \<Rightarrow> pos \<Rightarrow> (pos \<Rightarrow> 'a option) \<Rightarrow> 'a option" where
  "run (Lit l) q k = (case lit l q of None \<Rightarrow> None | Some q' \<Rightarrow> k q')"
| "run (Star c) q k = star_greedy c (fst q) (snd q) k"
| "run (Plus c) q k =
     (case snd q of
        [] \<Rightarrow> None
      | x # s \<Rightarrow> if in_cls c x then star_greedy c (Some x) s k else None)"
| "run (LazyStar c) q k = star_lazy c (fst q) (snd q) k"
| "run (Opt r) q k = (case run r q k of Some x \<Rightarrow> Some x | None \<Rightarrow> k q)"
| "run (Seq a b) q k = run a q (\<lambda>q'. run b q' k)"
| "run Boundary q k = (if at_boundary q then k q else None)"

text \<open>\<open>pattern.match(text, pos)\<close>: the position after the match.\<close>

definition match_at :: "re \<Rightarrow> pos \<Rightarrow> pos option" where
  "match_at r q = run r q Some"

text \<open>
  \<open>pattern.search\<close>: the leftmost position where the pattern matches, as the number of
  characters before the match and the number of characters up to its end.
\<close>

fun search :: "re \<Rightarrow> char option \<Rightarrow> string \<Rightarrow> (nat \<times> nat) option" where
  "search r pr [] =
     (case match_at r (pr, []) of None \<Rightarrow> None | Some q \<Rightarrow> Some (0, 0))"
| "search r pr (c # s) =
     (case match_at r (pr, c # s) of
        Some q \<Rightarrow> Some (0, Suc (length s) - length (snd q))
      | None \<Rightarrow> map_option (\<lambda>(a, b). (Suc a, Suc b)) (search r (Some c) s))"

definition found :: "re \<Rightarrow> string \<Rightarrow> bool" where
  "found r s = (search r None s \<noteq> None)"

definition last_opt :: "char option \<Rightarrow> string \<Rightarrow> char option" where
  "last_opt pr s = (if s = [] then pr else Some (last s))"

text \<open>
  \<open>pattern.findall\<close> for a pattern whose one group is the whole match: the matched
  texts, left to right, each search starting where the last match ended. No pattern of
  the source matches the empty string (each begins with a literal), so the scan stops
  rather than steps over an empty match.
\<close>

function findall :: "re \<Rightarrow> char option \<Rightarrow> string \<Rightarrow> string list" where
  "findall r pr s =
     (case search r pr s of
        None \<Rightarrow> []
      | Some (a, b) \<Rightarrow>
          if b = 0 \<or> length s < b then []
          else take (b - a) (drop a s) # findall r (last_opt pr (take b s)) (drop b s))"
  by pat_completeness auto
termination
  by (relation "measure (\<lambda>(r, pr, s). length s)") auto

declare findall.simps [simp del]

text \<open>\<open>re.sub(pattern, '', text)\<close>: the text without the matches of the pattern.\<close>

function delete_all :: "re \<Rightarrow> char option \<Rightarrow> string \<Rightarrow> string" where
  "delete_all r pr [] = []"
| "delete_all r pr (c # s) =
     (case match_at r (pr, c # s) of
        None \<Rightarrow> c # delete_all r (Some c) s
      | Some q \<Rightarrow>
          if length (snd q) \<le> length s then delete_all r (fst q) (snd q)
          else c # delete_all r (Some c) s)"
  by pat_completeness auto
termination
  by (relation "measure (\<lambda>(r, pr, s). length s)") auto

declare delete_all.simps [simp del]

text \<open>\<open>CLOSE_TAG_RE = </\s*(?:\w+:)?intercompanymessage\s*>\<close>\<close>

definition CLOSE_TAG_RE :: re where
  "CLOSE_TAG_RE =
     Seq (Lit ''</'') (Seq (Star Space) (Seq (Opt (Seq (Plus Word) (Lit '':'')))
       (Seq (Lit ''intercompanymessage'') (Seq (Star Space) (Lit ''>'')))))"

text \<open>\<open>OPEN_TAG_RE = <\s*(?:\w+:)?intercompanymessage\b\<close>\<close>

definition OPEN_TAG_RE :: re where
  "OPEN_TAG_RE =
     Seq (Lit ''<'') (Seq (Star Space) (Seq (Opt (Seq (Plus Word) (Lit '':'')))
       (Seq (Lit ''intercompanymessage'') Boundary)))"

text \<open>
  The pattern of \<open>_extract_messages\<close>:
  \<open>(<\s*(?:\w+:)?intercompanymessage[\s\S]*?</\s*(?:\w+:)?intercompanymessage\s*>)\<close>
\<close>

definition MESSAGE_RE :: re where
  "MESSAGE_RE =
     Seq (Lit ''<'') (Seq (Star Space) (Seq (Opt (Seq (Plus Word) (Lit '':'')))
       (Seq (Lit ''intercompanymessage'') (Seq (LazyStar AnyChar) CLOSE_TAG_RE))))"

text \<open>\<open>\s*<\?xml[^\>]*\?>\<close>\<close>

definition XML_DECL_RE :: re where
  "XML_DECL_RE =
     Seq (Star Space) (Seq (Lit ''<?xml'') (Seq (Star NotGt) (Lit ''?>'')))"

datatype error = ValueError | AttributeError | XMLSyntaxError

text \<open>\<open>_extract_messages(raw)\<close>\<close>

definition extract_messages :: "string \<Rightarrow> error + string list" where
  "extract_messages raw0 =
     (let raw = py_strip raw0;
          matches = findall MESSAGE_RE None raw
      in if matches = [] then Inl ValueError
         else Inr (map (\<lambda>msg. py_strip (delete_all XML_DECL_RE None msg)) matches))"


section \<open>Dates and sequence numbers\<close>

text \<open>
  \<open>datetime.strptime(s, "%Y-%m-%d")\<close>. The standard library turns the format into the
  pattern \<open>(\d\d\d\d)-(1[0-2]|0[1-9]|[1-9])-(3[0-1]|[1-2]\d|0[1-9]|[1-9]| [1-9])\<close>, matches
  it at the start of the text, raises \<open>ValueError\<close> when it does not match or when text
  is left over, and raises it as well when the three numbers are no date of the
  calendar (year 0, 30 February).
\<close>

definition digit_val :: "char \<Rightarrow> nat" where
  "digit_val c = cp c - 48"

definition in_range :: "char \<Rightarrow> nat \<Rightarrow> nat \<Rightarrow> bool" where
  "in_range c lo hi = (48 + lo \<le> cp c \<and> cp c \<le> 48 + hi)"

fun year_of :: "string \<Rightarrow> (nat \<times> string) option" where
  "year_of (a # b # c # d # s) =
     (if is_decimal a \<and> is_decimal b \<and> is_decimal c \<and> is_decimal d
      then Some (1000 * digit_val a + 100 * digit_val b + 10 * digit_val c + digit_val d, s)
      else None)"
| "year_of s = None"

definition month_of :: "string \<Rightarrow> (nat \<times> string) option" where
  "month_of s =
     (case s of
        a # b # t \<Rightarrow>
          if a = CHR ''1'' \<and> in_range b 0 2 then Some (10 + digit_val b, t)
          else if a = CHR ''0'' \<and> in_range b 1 9 then Some (digit_val b, t)
          else if in_range a 1 9 then Some (digit_val a, b # t)
          else None
      | [a] \<Rightarrow> if in_range a 1 9 then Some (digit_val a, []) else None
      | [] \<Rightarrow> None)"

definition day_of :: "string \<Rightarrow> (nat \<times> string) option" where
  "day_of s =
     (case s of
        a # b # t \<Rightarrow>
          if a = CHR ''3'' \<and> in_range b 0 1 then Some (30 + digit_val b, t)
          else if in_range a 1 2 \<and> is_decimal b then Some (10 * digit_val a + digit_val b, t)
          else if a = CHR ''0'' \<and> in_range b 1 9 then Some (digit_val b, t)
          else if in_range a 1 9 then Some (digit_val a, b # t)
          else if a = CHR '' '' \<and> in_range b 1 9 then Some (digit_val b, t)
          else None
      | [a] \<Rightarrow> if in_range a 1 9 then Some (digit_val a, []) else None
      | [] \<Rightarrow> None)"

definition is_leap :: "nat \<Rightarrow> bool" where
  "is_leap y = (y mod 4 = 0 \<and> (y mod 100 \<noteq> 0 \<or> y mod 400 = 0))"

definition days_in_month :: "nat \<Rightarrow> nat \<Rightarrow> nat" where
  "days_in_month y m =
     (if m = 2 then (if is_leap y then 29 else 28)
      else if m = 4 \<or> m = 6 \<or> m = 9 \<or> m = 11 then 30 else 31)"

definition valid_date :: "nat \<Rightarrow> nat \<Rightarrow> nat \<Rightarrow> bool" where
  "valid_date y m d = (1 \<le> y \<and> y \<le> 9999 \<and> 1 \<le> m \<and> m \<le> 12 \<and> 1 \<le> d \<and> d \<le> days_in_month y m)"

definition strptime :: "string \<Rightarrow> error + nat \<times> nat \<times> nat" where
  "strptime s =
     (case year_of s of
        None \<Rightarrow> Inl ValueError
      | Some (y, s1) \<Rightarrow>
          (case s1 of
             [] \<Rightarrow> Inl ValueError
           | h1 # s2 \<Rightarrow>
               if h1 \<noteq> CHR ''-'' then Inl ValueError
               else (case month_of s2 of
                 None \<Rightarrow> Inl ValueError
               | Some (m, s3) \<Rightarrow>
                   (case s3 of
                      [] \<Rightarrow> Inl ValueError
                    | h2 # s4 \<Rightarrow>
                        if h2 \<noteq> CHR ''-'' then Inl ValueError
                        else (case day_of s4 of
                          None \<Rightarrow> Inl ValueError
                        | Some (d, s5) \<Rightarrow>
                            if s5 \<noteq> [] then Inl ValueError
                            else if valid_date y m d then Inr (y, m, d)
                            else Inl ValueError)))))"

text \<open>The last decimal digit of a number, and its last two and last four digits.\<close>

definition digit_char :: "nat \<Rightarrow> char" where
  "digit_char d = ''0123456789'' ! (d mod 10)"

definition pad2 :: "nat \<Rightarrow> string" where
  "pad2 n = [digit_char (n div 10), digit_char n]"

definition pad4 :: "nat \<Rightarrow> string" where
  "pad4 n = [digit_char (n div 1000), digit_char (n div 100), digit_char (n div 10), digit_char n]"

text \<open>\<open>str(n)\<close> of a natural number.\<close>

function py_str :: "nat \<Rightarrow> string" where
  "py_str n = (if n < 10 then [digit_char n] else py_str (n div 10) @ [digit_char n])"
  by pat_completeness auto
termination
  by (relation "measure id") auto

declare py_str.simps [simp del]

text \<open>
  \<open>d.strftime("%d.%m.%Y")\<close>: day and month in two digits; the year as the C library
  of the runtime prints \<open>%Y\<close>, the decimal number with no leading zeros
  (\<open>999\<close> for the year 999).
\<close>

definition strftime :: "nat \<times> nat \<times> nat \<Rightarrow> string" where
  "strftime dt = (case dt of (y, m, d) \<Rightarrow> pad2 d @ ''.'' @ pad2 m @ ''.'' @ py_str y)"

text \<open>Lines 79 to 83 of the source: the creation date of the order.\<close>

definition po_create_date :: "string \<Rightarrow> string" where
  "po_create_date po_create_raw =
     (if po_create_raw \<noteq> [] then
        (case strptime po_create_raw of Inl e \<Rightarrow> [] | Inr dt \<Rightarrow> strftime dt)
      else [])"

text \<open>Lines 124 to 130 of the source: the shipment date of one line item.\<close>

definition expc_ship_date :: "string \<Rightarrow> string" where
  "expc_ship_date date =
     (if py_strip date \<noteq> ''None'' \<and> py_strip date \<noteq> [] then
        (case strptime date of Inl e \<Rightarrow> [] | Inr dt \<Rightarrow> strftime dt)
      else [])"

text \<open>\<open>s.isdigit()\<close>\<close>

definition py_isdigit :: "string \<Rightarrow> bool" where
  "py_isdigit s = (s \<noteq> [] \<and> list_all is_digit s)"

text \<open>
  \<open>int(s)\<close> for a text without sign, blank or underscore (the only call of the source
  passes a stripped text of \<open>isdigit\<close> characters): the decimal value when every
  character is a decimal digit, \<open>ValueError\<close> otherwise, and \<open>ValueError\<close> as well beyond
  the interpreter's default limit of 4300 digits.
\<close>

definition py_int :: "string \<Rightarrow> error + nat" where
  "py_int s =
     (if s \<noteq> [] \<and> list_all is_decimal s \<and> length s \<le> 4300
      then Inr (foldl (\<lambda>a c. 10 * a + digit_val c) 0 s)
      else Inl ValueError)"

text \<open>Lines 89 to 93 of the source: one sequence number.\<close>

definition normalize_seq :: "string \<Rightarrow> error + string" where
  "normalize_seq i0 =
     (let i = py_strip i0
      in if py_isdigit i then
           (case py_int i of Inl e \<Rightarrow> Inl e | Inr n \<Rightarrow> Inr (py_str n))
         else Inr i)"

text \<open>The sequence number is one on which lines 89 to 93 raise no exception.\<close>

definition seq_convertible :: "string \<Rightarrow> bool" where
  "seq_convertible s = (case normalize_seq s of Inl e \<Rightarrow> False | Inr v \<Rightarrow> True)"

text \<open>A loop that appends one result per element stops at the first exception.\<close>

fun collect :: "('a \<Rightarrow> error + 'b) \<Rightarrow> 'a list \<Rightarrow> error + 'b list" where
  "collect f [] = Inr []"
| "collect f (x # xs) =
     (case f x of
        Inl e \<Rightarrow> Inl e
      | Inr y \<Rightarrow> (case collect f xs of Inl e \<Rightarrow> Inl e | Inr ys \<Rightarrow> Inr (y # ys)))"


section \<open>The field extractor\<close>

text \<open>
  The XML library is not part of the repository. The extractor takes it as a parameter:
  \<open>fromstring\<close> is \<open>etree.fromstring\<close> with the recovering parser, which raises,
  returns \<open>None\<close> or returns the root; \<open>xpath_nodes\<close> and \<open>xpath_strs\<close> are
  \<open>node.xpath(path)\<close> for a path that selects elements and for a path that selects
  texts or attribute values, in document order.
\<close>

record 'n lxml =
  fromstring :: "string \<Rightarrow> error + 'n option"
  xpath_nodes :: "'n \<Rightarrow> string \<Rightarrow> 'n list"
  xpath_strs :: "'n \<Rightarrow> string \<Rightarrow> string list"

text \<open>The output sheet: the value of the cell at a row and a column, both counted from 1.\<close>

type_synonym sheet = "nat \<times> nat \<Rightarrow> string option"

text \<open>A column of \<open>data\<close> is one text or a list with one text per line item.\<close>

datatype colval = Scalar string | PerLine "string list"

definition x1 :: "'n lxml \<Rightarrow> 'n \<Rightarrow> string \<Rightarrow> string \<Rightarrow> string" where
  "x1 lx root path dflt = (case xpath_strs lx root path of [] \<Rightarrow> dflt | r # _ \<Rightarrow> r)"

definition get_data :: "'n lxml \<Rightarrow> 'n list \<Rightarrow> string \<Rightarrow> string list" where
  "get_data lx LINE_ITEMS locator = map (\<lambda>li. join '' '' (xpath_strs lx li locator)) LINE_ITEMS"

text \<open>Lines 62 to 142 of the source: the twenty columns and the number of line items.\<close>

definition column_data :: "'n lxml \<Rightarrow> 'n \<Rightarrow> error + colval list \<times> nat" where
  "column_data lx root =
     (let LINE_ITEMS = xpath_nodes lx root ''//purchaseOrder//lineItems//lineItem'';
          PUSB = x1 lx root ''//purchaseOrder/@PUSB'' [];
          PO_NUMBER = x1 lx root ''//purchaseOrder/@orderNumber'' [];
          SOS = x1 lx root ''//purchaseOrder//header//SoS/text()'' [];
          CUSTPROFCODE0 = x1 lx root ''//purchaseOrder//header//customerProfileCode/text()'' [];
          CUSTPROFCODE = (if CUSTPROFCODE0 \<noteq> [] then join '' '' [''STC'', CUSTPROFCODE0] else CUSTPROFCODE0);
          ITRANSPROUTECODE = x1 lx root ''//purchaseOrder//header//internationalTransportationRouteCode/text()'' [];
          po_create_raw = x1 lx root ''//purchaseOrder//header//purchaseOrderCreationDate/text()'' [];
          POCREATEDATE = po_create_date po_create_raw;
          seqs_raw = get_data lx LINE_ITEMS ''./@sequenceNumber''
      in case collect normalize_seq seqs_raw of
           Inl e \<Rightarrow> Inl e
         | Inr POLINESEQNRS \<Rightarrow>
            (let MMMPRODID = get_data lx LINE_ITEMS ''./productIdentifier/text()'';
                 ORDERQTY = get_data lx LINE_ITEMS ''./orderQuantity/text()'';
                 SELLINGUNIT = get_data lx LINE_ITEMS ''./sellingUnit/text()'';
                 SUPPLY_CHAIN_UNIT = SELLINGUNIT;
                 PRODUCT_DESCRIPTION = get_data lx LINE_ITEMS
                   ''./lineItemDetails/lineItemDetail[@type=\"purchaseritemdescription\"]/text()'';
                 SPECIAL_HANDLING = get_data lx LINE_ITEMS
                   ''./lineItemDetails/lineItemDetail[@type=\"specialhandlingcode\"]/text()'';
                 no_line_items = length POLINESEQNRS;
                 LINE_INSTRUCTION = replicate no_line_items [];
                 ADDRESS = join ''; '' (rev (xpath_strs lx root
                   ''//purchaseOrder//header//purchaseOrderDetails//purchaseOrderDetail[@type=\"shiptoaddress\"]/text()''));
                 EXPORT_MARKS = replicate no_line_items [];
                 ORDER_INSTRUCTION0 = concat (xpath_strs lx root
                   ''//purchaseOrder//header//specialInstructions//specialInstruction[@type=\"AH\"]/text()'');
                 ORDER_INSTRUCTION = (if ORDER_INSTRUCTION0 \<noteq> [] then ''C'' @ ORDER_INSTRUCTION0 else ''null'');
                 EXPC_SHIP_TYPE_CODE = get_data lx LINE_ITEMS ''./requestedShipmentDate/@type'';
                 EXPC_SHIP_DATE = map expc_ship_date (get_data lx LINE_ITEMS ''./requestedShipmentDate/text()'');
                 SAP_PO_NUMBER = map (\<lambda>po_number. if po_number = [] then ''null'' else po_number)
                   (get_data lx LINE_ITEMS ''./purchasingCompanyReferenceNumber/text()'')
             in Inr ([Scalar PUSB, Scalar PO_NUMBER, Scalar SOS, Scalar CUSTPROFCODE,
                      Scalar ITRANSPROUTECODE, Scalar POCREATEDATE,
                      PerLine POLINESEQNRS, PerLine MMMPRODID, PerLine ORDERQTY, PerLine SELLINGUNIT,
                      PerLine SUPPLY_CHAIN_UNIT, PerLine PRODUCT_DESCRIPTION, PerLine SPECIAL_HANDLING,
                      PerLine LINE_INSTRUCTION, Scalar ADDRESS, PerLine EXPORT_MARKS,
                      Scalar ORDER_INSTRUCTION, PerLine EXPC_SHIP_TYPE_CODE, PerLine EXPC_SHIP_DATE,
                      PerLine SAP_PO_NUMBER], no_line_items)))"

text \<open>Lines 147 to 154: the value written for one column and one line item.\<close>

definition cell_value :: "colval \<Rightarrow> nat \<Rightarrow> string" where
  "cell_value cur_val cur_record_num =
     (case cur_val of
        PerLine vs \<Rightarrow> if cur_record_num < length vs then vs ! cur_record_num else []
      | Scalar v \<Rightarrow> v)"

text \<open>Lines 146 to 154: the inner loop over the columns of one row.\<close>

definition write_row :: "colval list \<Rightarrow> nat \<Rightarrow> nat \<Rightarrow> sheet \<Rightarrow> sheet" where
  "write_row data cur_record_num current_row xl_sheet =
     fold (\<lambda>col sh. sh((current_row, col + 1) \<mapsto> cell_value (data ! col) cur_record_num))
       [0..<length data] xl_sheet"

text \<open>Lines 145 to 158: the loop over the line items; it returns the sheet and the next row.\<close>

definition write_rows :: "colval list \<Rightarrow> nat \<Rightarrow> sheet \<Rightarrow> nat \<Rightarrow> sheet \<times> nat" where
  "write_rows data no_line_items xl_sheet current_row =
     fold (\<lambda>cur_record_num (sh, row). (write_row data cur_record_num row sh, row + 1))
       [0..<no_line_items] (xl_sheet, current_row)"

definition process_xml_and_populate_xl_sheet ::
    "'n lxml \<Rightarrow> string \<Rightarrow> sheet \<Rightarrow> nat \<Rightarrow> error + sheet \<times> nat" where
  "process_xml_and_populate_xl_sheet lx xml_content xl_sheet current_row =
     (case fromstring lx xml_content of
        Inl e \<Rightarrow> Inl e
      | Inr None \<Rightarrow> Inl AttributeError
      | Inr (Some root) \<Rightarrow>
          (case column_data lx root of
             Inl e \<Rightarrow> Inl e
           | Inr (data, no_line_items) \<Rightarrow> Inr (write_rows data no_line_items xl_sheet current_row)))"


section \<open>The message scanner\<close>

definition MAX_PARTS :: nat where
  "MAX_PARTS = 1000"

definition MAX_XML_BYTES :: nat where
  "MAX_XML_BYTES = 8 * 1024 * 1024"

text \<open>The warnings of \<open>process_excel\<close>, each with the row number \<open>i + 1\<close> it reports.\<close>

datatype warning =
    SingleCellTooLarge nat
  | ExtractionFailed nat error
  | ChunkTooLarge nat
  | IncompleteChunk nat
  | ChunkExceedsSize nat

record scan_state =
  ws_out :: sheet
  current_row :: nat
  warnings :: "warning list"

definition warn :: "warning \<Rightarrow> scan_state \<Rightarrow> scan_state" where
  "warn w st = st\<lparr>warnings := warnings st @ [w]\<rparr>"

text \<open>
  The loop \<open>for msg in messages\<close>: an exception of the extractor is not caught here and
  leaves the loop and \<open>process_excel\<close>.
\<close>

fun process_messages :: "'n lxml \<Rightarrow> string list \<Rightarrow> scan_state \<Rightarrow> error + scan_state" where
  "process_messages lx [] st = Inr st"
| "process_messages lx (msg # messages) st =
     (case process_xml_and_populate_xl_sheet lx msg (ws_out st) (current_row st) of
        Inl e \<Rightarrow> Inl e
      | Inr (sh, row) \<Rightarrow> process_messages lx messages (st\<lparr>ws_out := sh, current_row := row\<rparr>))"

text \<open>
  Lines 214 to 219: the inner loop of the multi-row path, from \<open>parts\<close> and \<open>j\<close> to their
  values when the loop is left, with the warning of the \<open>break\<close>.
\<close>

function accumulate ::
    "string list \<Rightarrow> nat \<Rightarrow> string list \<Rightarrow> nat \<Rightarrow> string list \<times> nat \<times> warning list" where
  "accumulate colA i parts j =
     (if j < length colA \<and> \<not> found CLOSE_TAG_RE (colA ! j) then
        (let parts' = parts @ [colA ! j]
         in if length parts' > MAX_PARTS then (parts', j, [ChunkTooLarge (i + 1)])
            else accumulate colA i parts' (j + 1))
      else (parts, j, []))"
  by pat_completeness auto
termination
  by (relation "measure (\<lambda>(colA, i, parts, j). length colA - j)") auto

declare accumulate.simps [simp del]

text \<open>
  Lines 201 to 208 and 236 to 245: extraction from a bounded chunk, then the cursor moves
  to \<open>next_i\<close>.
\<close>

definition extract_and_process ::
    "'n lxml \<Rightarrow> string \<Rightarrow> nat \<Rightarrow> nat \<Rightarrow> scan_state \<Rightarrow> error + nat \<times> scan_state" where
  "extract_and_process lx raw_xml i next_i st =
     (case extract_messages raw_xml of
        Inl e \<Rightarrow> Inr (next_i, warn (ExtractionFailed (i + 1) e) st)
      | Inr messages \<Rightarrow>
          (case process_messages lx messages st of
             Inl e \<Rightarrow> Inl e
           | Inr st' \<Rightarrow> Inr (next_i, st')))"

text \<open>Lines 188 to 247: one pass through the body of the outer loop, for \<open>i < n\<close>.\<close>

definition step :: "'n lxml \<Rightarrow> string list \<Rightarrow> nat \<Rightarrow> scan_state \<Rightarrow> error + nat \<times> scan_state" where
  "step lx colA i st =
     (let cell = colA ! i;
          has_open = found OPEN_TAG_RE cell;
          has_close = found CLOSE_TAG_RE cell
      in if has_open \<or> contains ''<?xml'' cell then
           if has_open \<and> has_close then
             (if utf8_len cell > MAX_XML_BYTES
              then Inr (i + 1, warn (SingleCellTooLarge (i + 1)) st)
              else extract_and_process lx cell i (i + 1) st)
           else
             (case accumulate colA i [cell] (i + 1) of
                (parts, j, ws) \<Rightarrow>
                  (let st1 = st\<lparr>warnings := warnings st @ ws\<rparr>
                   in if j \<ge> length colA then Inr (i + 1, warn (IncompleteChunk (i + 1)) st1)
                      else
                        (let raw_xml = concat (parts @ [colA ! j])
                         in if utf8_len raw_xml > MAX_XML_BYTES
                            then Inr (j + 1, warn (ChunkExceedsSize (i + 1)) st1)
                            else extract_and_process lx raw_xml i (j + 1) st1)))
         else Inr (i + 1, st))"

text \<open>The row takes the multi-row path: an opening indicator, and not both tags in the cell.\<close>

definition multi_row :: "string list \<Rightarrow> nat \<Rightarrow> bool" where
  "multi_row colA i =
     ((found OPEN_TAG_RE (colA ! i) \<or> contains ''<?xml'' (colA ! i)) \<and>
      \<not> (found OPEN_TAG_RE (colA ! i) \<and> found CLOSE_TAG_RE (colA ! i)))"

text \<open>The value of \<open>j\<close> when the inner loop of the multi-row path is left.\<close>

definition closing_row :: "string list \<Rightarrow> nat \<Rightarrow> nat" where
  "closing_row colA i = fst (snd (accumulate colA i [colA ! i] (i + 1)))"

text \<open>
  Lines 187 to 247: the outer loop. \<open>None\<close> stands for a loop that does not return;
  \<open>Some (Inl e)\<close> for an exception that leaves it.
\<close>

partial_function (option) scan ::
    "'n lxml \<Rightarrow> string list \<Rightarrow> nat \<Rightarrow> scan_state \<Rightarrow> (error + scan_state) option" where
  "scan lx colA i st =
     (if i < length colA then
        (case step lx colA i st of
           Inl e \<Rightarrow> Some (Inl e)
         | Inr (i', st') \<Rightarrow> scan lx colA i' st')
      else Some (Inr st))"

declare scan.simps [code]

definition headers :: "string list" where
  "headers =
     [''PUSB'', ''PO_NUMBER'', ''SOS'', ''CUSTPROFCODE'', ''ITRANSPROUTECODE'', ''POCREATEDATE'',
      ''POLINESEQNR'', ''MMMPRODID'', ''ORDERQTY'', ''SELLINGUNIT'', ''SUPPLY CHAIN UNIT'',
      ''PRODUCT DESCRIPTION'', ''SPECIAL HANDLING'', ''LINE INSTRUCTION'', ''ADDRESS'',
      ''EXPORT MARKS'', ''ORDER INSTRUCTION'', ''EXPC SHIP TYPE CODE'', ''EXPC SHIP DATE'',
      ''SAP PO NUMBER'']"

text \<open>Lines 180 to 183: the header row.\<close>

definition header_sheet :: sheet where
  "header_sheet = fold (\<lambda>col sh. sh((1, col + 1) \<mapsto> headers ! col)) [0..<length headers] Map.empty"

text \<open>
  \<open>process_excel\<close>, from the cells of the first input column to the sheet that is saved.
\<close>

definition start_state :: scan_state where
  "start_state = \<lparr>ws_out = header_sheet, current_row = 2, warnings = []\<rparr>"

definition process_excel :: "'n lxml \<Rightarrow> string list \<Rightarrow> (error + scan_state) option" where
  "process_excel lx colA = scan lx colA 0 start_state"


text \<open>
  What a run leaves behind apart from its warnings: the exception, or the sheet and the
  output row cursor.
\<close>

definition outcome :: "(error + scan_state) option \<Rightarrow> (error + sheet \<times> nat) option" where
  "outcome res = map_option (map_sum id (\<lambda>st. (ws_out st, current_row st))) res"


text \<open>The input cursor and the output row cursor after one pass through the loop body.\<close>

definition cursors :: "error + nat \<times> scan_state \<Rightarrow> error + nat \<times> nat" where
  "cursors res = map_sum id (\<lambda>(i, st). (i, current_row st)) res"

text \<open>The output row cursor and the warnings of a run.\<close>

definition summary :: "(error + scan_state) option \<Rightarrow> (error + nat \<times> warning list) option" where
  "summary res = map_option (map_sum id (\<lambda>st. (current_row st, warnings st))) res"


section \<open>A reference instance of the XML library\<close>

text \<open>
  For concrete runs the parameter is instantiated with documents as trees and with the
  path shapes the source uses: steps \<open>//name\<close> and \<open>/name\<close>, an optional test
  \<open>[@attr="value"]\<close>, and a last step \<open>text()\<close> or \<open>@attr\<close>. Absolute paths are
  evaluated with the given node as the root element, as the source does.
\<close>

datatype xml = Elem string "(string \<times> string) list" "xml list" | Text string

datatype xstep = Step bool string "(string \<times> string) option"

datatype xsel = Nodes | Texts | Attr string

fun split_slash :: "string \<Rightarrow> string list" where
  "split_slash [] = [[]]"
| "split_slash (c # s) =
     (if c = CHR ''/'' then [] # split_slash s
      else (case split_slash s of [] \<Rightarrow> [[c]] | w # ws \<Rightarrow> (c # w) # ws))"

definition seg_name :: "string \<Rightarrow> string" where
  "seg_name s = takeWhile (\<lambda>c. c \<noteq> CHR ''['') s"

text \<open>The test \<open>[@attr="value"]\<close> of a step, if it has one.\<close>

definition seg_cond :: "string \<Rightarrow> (string \<times> string) option" where
  "seg_cond s =
     (case dropWhile (\<lambda>c. c \<noteq> CHR ''['') s of
        [] \<Rightarrow> None
      | _ # t \<Rightarrow>
          Some (takeWhile (\<lambda>c. c \<noteq> CHR ''='') (drop 1 t),
                takeWhile (\<lambda>c. c \<noteq> CHR 0x22) (drop 2 (dropWhile (\<lambda>c. c \<noteq> CHR ''='') t))))"

fun segs :: "bool \<Rightarrow> string list \<Rightarrow> xstep list \<times> xsel" where
  "segs d [] = ([], Nodes)"
| "segs d (s # r) =
     (if s = [] then segs True r
      else if s = ''.'' then segs False r
      else if s = ''text()'' \<and> r = [] then ([], Texts)
      else if hd s = CHR ''@'' \<and> r = [] then ([], Attr (tl s))
      else (case segs False r of (st, sel) \<Rightarrow> (Step d (seg_name s) (seg_cond s) # st, sel)))"

definition parse_path :: "string \<Rightarrow> xstep list \<times> xsel" where
  "parse_path p = segs False (split_slash p)"

fun deep :: "xstep \<Rightarrow> bool" where
  "deep (Step d n c) = d"

fun matches :: "xstep \<Rightarrow> xml \<Rightarrow> bool" where
  "matches (Step d n c) (Elem m as cs) =
     (m = n \<and> (case c of None \<Rightarrow> True | Some (a, v) \<Rightarrow> map_of as a = Some v))"
| "matches st (Text t) = False"

text \<open>
  \<open>walk steps anc here node\<close>: the elements below \<open>node\<close> that complete the steps, in
  document order, each once. \<open>here\<close> holds the numbers of steps matched by a chain that
  ends at \<open>node\<close>, \<open>anc\<close> those matched by a chain that ends at an ancestor.
\<close>

fun walk :: "xstep list \<Rightarrow> nat list \<Rightarrow> nat list \<Rightarrow> xml \<Rightarrow> xml list" where
  "walk steps anc here (Text t) = []"
| "walk steps anc here (Elem n as cs) =
     concat (map (\<lambda>c.
       (let anc' = anc @ here;
            new = map Suc (filter (\<lambda>k. matches (steps ! k) c \<and>
                    (if deep (steps ! k) then k \<in> set anc' else k \<in> set here))
                    [0..<length steps])
        in (if length steps \<in> set new then [c] else []) @ walk steps anc' new c)) cs)"

definition select :: "xml \<Rightarrow> string \<Rightarrow> xml list" where
  "select node p =
     (case parse_path p of (steps, sel) \<Rightarrow>
        if steps = [] then [node]
        else walk steps [] [0] (if take 1 p = ''/'' then Elem [] [] [node] else node))"

fun texts_of :: "xml \<Rightarrow> string list" where
  "texts_of (Elem n as cs) = concat (map (\<lambda>c. case c of Text t \<Rightarrow> [t] | Elem _ _ _ \<Rightarrow> []) cs)"
| "texts_of (Text t) = []"

fun attr_of :: "string \<Rightarrow> xml \<Rightarrow> string list" where
  "attr_of a (Elem n as cs) = (case map_of as a of None \<Rightarrow> [] | Some v \<Rightarrow> [v])"
| "attr_of a (Text t) = []"

definition select_strs :: "xml \<Rightarrow> string \<Rightarrow> string list" where
  "select_strs node p =
     (case snd (parse_path p) of
        Texts \<Rightarrow> concat (map texts_of (select node p))
      | Attr a \<Rightarrow> concat (map (attr_of a) (select node p))
      | Nodes \<Rightarrow> [])"

text \<open>The library with a given parser.\<close>

definition tree_lxml :: "(string \<Rightarrow> error + xml option) \<Rightarrow> xml lxml" where
  "tree_lxml parse = \<lparr>fromstring = parse, xpath_nodes = select, xpath_strs = select_strs\<rparr>"


section \<open>Sample documents\<close>

text \<open>An order with two line items.\<close>

definition message_A :: string where
  "message_A = ''<intercompanyMessage><purchaseOrder><lineItems><lineItem sequenceNumber=\"007\"/><lineItem sequenceNumber=\"A1\"/></lineItems></purchaseOrder></intercompanyMessage>''"

definition tree_A :: xml where
  "tree_A =
     Elem ''intercompanyMessage'' []
       [Elem ''purchaseOrder'' []
          [Elem ''lineItems'' []
             [Elem ''lineItem'' [(''sequenceNumber'', ''007'')] [],
              Elem ''lineItem'' [(''sequenceNumber'', ''A1'')] []]]]"

text \<open>
  An order whose one line item has the sequence number \<open>SUPERSCRIPT TWO\<close> (U+00B2), a
  character for which \<open>str.isdigit\<close> holds and which \<open>int()\<close> rejects.
\<close>

definition message_B :: string where
  "message_B = ''<intercompanyMessage><purchaseOrder><lineItems><lineItem sequenceNumber=\"'' @ [CHR 0xB2] @ ''\"/></lineItems></purchaseOrder></intercompanyMessage>''"

definition tree_B :: xml where
  "tree_B =
     Elem ''intercompanyMessage'' []
       [Elem ''purchaseOrder'' []
          [Elem ''lineItems'' [] [Elem ''lineItem'' [(''sequenceNumber'', [CHR 0xB2])] []]]]"

text \<open>An order with a creation date, two ship-to address lines and two line items.\<close>

definition message_C :: string where
  "message_C = ''<intercompanyMessage><purchaseOrder PUSB=\"P1\" orderNumber=\"4500\"><header><purchaseOrderCreationDate>2024-03-07</purchaseOrderCreationDate><purchaseOrderDetails><purchaseOrderDetail type=\"shiptoaddress\">Main St 1</purchaseOrderDetail><purchaseOrderDetail type=\"shiptoaddress\">Springfield</purchaseOrderDetail></purchaseOrderDetails></header><lineItems><lineItem sequenceNumber=\"007\"><orderQuantity>5</orderQuantity></lineItem><lineItem sequenceNumber=\"A1\"/></lineItems></purchaseOrder></intercompanyMessage>''"

definition tree_C :: xml where
  "tree_C =
     Elem ''intercompanyMessage'' []
       [Elem ''purchaseOrder'' [(''PUSB'', ''P1''), (''orderNumber'', ''4500'')]
          [Elem ''header'' []
             [Elem ''purchaseOrderCreationDate'' [] [Text ''2024-03-07''],
              Elem ''purchaseOrderDetails'' []
                [Elem ''purchaseOrderDetail'' [(''type'', ''shiptoaddress'')] [Text ''Main St 1''],
                 Elem ''purchaseOrderDetail'' [(''type'', ''shiptoaddress'')] [Text ''Springfield'']]],
           Elem ''lineItems'' []
             [Elem ''lineItem'' [(''sequenceNumber'', ''007'')] [Elem ''orderQuantity'' [] [Text ''5'']],
              Elem ''lineItem'' [(''sequenceNumber'', ''A1'')] []]]]"

text \<open>The parser on the sample documents; it recovers no tree from any other text.\<close>

definition sample_parse :: "string \<Rightarrow> error + xml option" where
  "sample_parse s =
     (if s = message_A then Inr (Some tree_A)
      else if s = message_B then Inr (Some tree_B)
      else if s = message_C then Inr (Some tree_C)
      else Inr None)"

definition sample_lxml :: "xml lxml" where
  "sample_lxml = tree_lxml sample_parse"

text \<open>The first sample document cut into three cells, away from its outer tags.\<close>

definition split_A :: "string list" where
  "split_A = [take 50 message_A, take 50 (drop 50 message_A), drop 100 message_A]"

text \<open>The same document cut inside its opening tag.\<close>

definition split_in_tag :: "string list" where
  "split_in_tag = [take 13 message_A, drop 13 message_A]"

text \<open>
  1001 rows: the first sample document without its last character, 999 empty cells, and
  the last character.
\<close>

definition long_rows :: "string list" where
  "long_rows = butlast message_A # replicate 999 [] @ [''>'']"

text \<open>A cell with the second and the first sample document, and a cell with the first.\<close>

definition sibling_rows :: "string list" where
  "sibling_rows = [message_B @ message_A, message_A]"

text \<open>A cell with the start of an XML declaration, and a cell with a closing tag.\<close>

definition declaration_rows :: "string list" where
  "declaration_rows = [''<?xml'', ''</intercompanyMessage>'']"

text \<open>
  A cell with the text \<open><?xml\<close> but no XML declaration and no whole opening tag,
  followed by the rest of the first sample document.
\<close>

definition stray_rows :: "string list" where
  "stray_rows = [''note <?xml'' @ take 13 message_A, drop 13 message_A]"

section \<open>The cursor of the scanner\<close>

lemma accumulate_ge: "accumulate colA i parts j = (p, j', ws) \<Longrightarrow> j \<le> j'"
proof (induction colA i parts j rule: accumulate.induct)
  case (1 colA i parts j)
  show ?case
  proof (cases "j < length colA \<and> \<not> found CLOSE_TAG_RE (colA ! j)")
    case False
    with "1.prems" show ?thesis by (simp add: accumulate.simps[of colA i parts j])
  next
    case True
    show ?thesis
    proof (cases "length (parts @ [colA ! j]) > MAX_PARTS")
      case big: True
      with True "1.prems" show ?thesis by (simp add: accumulate.simps[of colA i parts j])
    next
      case small: False
      with True "1.prems" have "accumulate colA i (parts @ [colA ! j]) (j + 1) = (p, j', ws)"
        by (simp add: accumulate.simps[of colA i parts j])
      with "1.IH"[OF True refl small] have "j + 1 \<le> j'" by simp
      then show ?thesis by simp
    qed
  qed
qed

lemma extract_and_process_next:
  "extract_and_process lx raw i nxt st = Inr (i', st') \<Longrightarrow> i' = nxt"
  by (auto simp: extract_and_process_def split: sum.splits)

lemma step_next:
  assumes "step lx colA i st = Inr (i', st')"
  shows "if multi_row colA i \<and> closing_row colA i < length colA
         then i' = closing_row colA i + 1 \<and> i + 2 \<le> i' \<and> i' \<le> length colA
         else i' = i + 1"
proof -
  obtain parts j ws where acc: "accumulate colA i [colA ! i] (i + 1) = (parts, j, ws)"
    by (cases "accumulate colA i [colA ! i] (i + 1)") auto
  from accumulate_ge[OF acc] have "i + 1 \<le> j" .
  with assms acc show ?thesis
    by (auto simp: step_def Let_def multi_row_def closing_row_def
             split: if_splits dest!: extract_and_process_next)
qed

lemma step_increases: "step lx colA i st = Inr (i', st') \<Longrightarrow> i < i'"
  using step_next[of lx colA i st i' st'] by (auto split: if_splits)

lemma scan_returns: "\<exists>r. scan lx colA i st = Some r"
proof (induction "length colA - i" arbitrary: i st rule: less_induct)
  case less
  show ?case
  proof (cases "i < length colA")
    case False
    then show ?thesis by (simp add: scan.simps[of lx colA i st])
  next
    case True
    show ?thesis
    proof (cases "step lx colA i st")
      case (Inl e)
      with True show ?thesis by (simp add: scan.simps[of lx colA i st])
    next
      case (Inr p)
      obtain i' st' where p: "p = (i', st')" by (cases p)
      from step_increases[OF Inr[unfolded p]] have "i < i'" .
      with True have "length colA - i' < length colA - i" by simp
      from less[OF this] obtain r where "scan lx colA i' st' = Some r" by blast
      with True Inr p show ?thesis by (simp add: scan.simps[of lx colA i st])
    qed
  qed
qed

lemma step_no_indicator:
  assumes "\<not> found OPEN_TAG_RE (colA ! i)" and "\<not> contains ''<?xml'' (colA ! i)"
  shows "step lx colA i st = Inr (i + 1, st)"
  using assms by (simp add: step_def)

section \<open>The rows of one message\<close>


lemma write_row_aux:
  "fold (\<lambda>col sh. sh((row, col + 1) \<mapsto> f col)) [0..<n] sh0 (r, c) =
     (if r = row \<and> 1 \<le> c \<and> c \<le> n then Some (f (c - 1)) else sh0 (r, c))"
proof (induction n)
  case 0
  show ?case by auto
next
  case (Suc n)
  show ?case
  proof (cases "r = row \<and> c = Suc n")
    case True
    then show ?thesis by simp
  next
    case False
    then show ?thesis using Suc by (auto simp: fun_upd_def)
  qed
qed

lemma write_row_apply:
  "write_row data k row sh (r, c) =
     (if r = row \<and> 1 \<le> c \<and> c \<le> length data then Some (cell_value (data ! (c - 1)) k)
      else sh (r, c))"
  unfolding write_row_def by (rule write_row_aux)

lemma write_rows_Suc:
  "write_rows data (Suc n) sh row =
     (case write_rows data n sh row of (sh', row') \<Rightarrow> (write_row data n row' sh', row' + 1))"
  by (simp add: write_rows_def split: prod.splits)

lemma write_rows_snd: "snd (write_rows data n sh row) = row + n"
proof (induction n)
  case 0
  show ?case by (simp add: write_rows_def)
next
  case (Suc n)
  then show ?case by (auto simp: write_rows_Suc split: prod.splits)
qed

lemma write_rows_apply:
  "fst (write_rows data n sh row) (r, c) =
     (if row \<le> r \<and> r < row + n \<and> 1 \<le> c \<and> c \<le> length data
      then Some (cell_value (data ! (c - 1)) (r - row))
      else sh (r, c))"
proof (induction n)
  case 0
  show ?case by (auto simp: write_rows_def)
next
  case (Suc n)
  obtain sh' row' where w: "write_rows data n sh row = (sh', row')"
    by (cases "write_rows data n sh row")
  from write_rows_snd[of data n sh row] w have row': "row' = row + n" by simp
  from Suc w have sh': "sh' (r, c) =
     (if row \<le> r \<and> r < row + n \<and> 1 \<le> c \<and> c \<le> length data
      then Some (cell_value (data ! (c - 1)) (r - row)) else sh (r, c))" by simp
  show ?case
    by (simp add: write_rows_Suc w write_row_apply row' sh')
qed

lemma collect_length: "collect f xs = Inr ys \<Longrightarrow> length ys = length xs"
  by (induction xs arbitrary: ys) (auto split: sum.splits)

lemma collect_Inr_iff: "(\<exists>ys. collect f xs = Inr ys) \<longleftrightarrow> (\<forall>x\<in>set xs. \<exists>y. f x = Inr y)"
  by (induction xs) (auto split: sum.splits)

lemma column_data_Inr:
  assumes "column_data lx root = Inr (data, n)"
  shows "length data = 20"
    and "n = length (xpath_nodes lx root ''//purchaseOrder//lineItems//lineItem'')"
    and "data ! 14 = Scalar (join ''; '' (rev (xpath_strs lx root
        ''//purchaseOrder//header//purchaseOrderDetails//purchaseOrderDetail[@type=\"shiptoaddress\"]/text()'')))"
  using assms unfolding column_data_def Let_def
  by (auto split: sum.splits dest!: collect_length simp: get_data_def)

lemma seq_convertible_Inr: "seq_convertible s \<Longrightarrow> \<exists>v. normalize_seq s = Inr v"
  by (cases "normalize_seq s") (auto simp: seq_convertible_def)

lemma column_data_total:
  assumes "\<forall>li\<in>set (xpath_nodes lx root ''//purchaseOrder//lineItems//lineItem'').
             seq_convertible (join '' '' (xpath_strs lx li ''./@sequenceNumber''))"
  shows "\<exists>data n. column_data lx root = Inr (data, n)"
proof -
  from assms have "\<forall>x\<in>set (get_data lx (xpath_nodes lx root ''//purchaseOrder//lineItems//lineItem'') ''./@sequenceNumber'').
     \<exists>y. normalize_seq x = Inr y"
    by (auto simp: get_data_def dest: seq_convertible_Inr)
  then obtain ys where "collect normalize_seq (get_data lx (xpath_nodes lx root ''//purchaseOrder//lineItems//lineItem'') ''./@sequenceNumber'') = Inr ys"
    using collect_Inr_iff[of normalize_seq] by blast
  then show ?thesis unfolding column_data_def Let_def by simp
qed

lemma process_Inr:
  assumes "fromstring lx xml_content = Inr (Some root)"
    and "process_xml_and_populate_xl_sheet lx xml_content sh r = Inr (sh', r')"
  shows "\<exists>data. column_data lx root =
           Inr (data, length (xpath_nodes lx root ''//purchaseOrder//lineItems//lineItem'')) \<and>
         sh' = fst (write_rows data (length (xpath_nodes lx root ''//purchaseOrder//lineItems//lineItem'')) sh r) \<and>
         r' = r + length (xpath_nodes lx root ''//purchaseOrder//lineItems//lineItem'')"
proof -
  from assms obtain data n where c: "column_data lx root = Inr (data, n)"
    and w: "write_rows data n sh r = (sh', r')"
    by (auto simp: process_xml_and_populate_xl_sheet_def split: sum.splits)
  from column_data_Inr(2)[OF c] have n: "n = length (xpath_nodes lx root ''//purchaseOrder//lineItems//lineItem'')" .
  from w write_rows_snd[of data n sh r] have "r' = r + n" by simp
  with c w n show ?thesis by auto
qed

lemma process_returns:
  assumes "fromstring lx xml_content = Inr (Some root)"
    and "\<forall>li\<in>set (xpath_nodes lx root ''//purchaseOrder//lineItems//lineItem'').
           seq_convertible (join '' '' (xpath_strs lx li ''./@sequenceNumber''))"
  shows "\<exists>sh'. process_xml_and_populate_xl_sheet lx xml_content sh r =
           Inr (sh', r + length (xpath_nodes lx root ''//purchaseOrder//lineItems//lineItem''))"
proof -
  from column_data_total[OF assms(2)] obtain data n where c: "column_data lx root = Inr (data, n)"
    by blast
  from column_data_Inr(2)[OF c] write_rows_snd[of data n sh r] assms(1) c show ?thesis
    by (simp add: process_xml_and_populate_xl_sheet_def prod_eq_iff)
qed

text \<open>
  Where the parser recovers a tree and no sequence number raises an exception, the
  extractor returns \<open>start_row + N\<close> for the \<open>N\<close> line items of the tree; the twenty
  cells of each of the rows \<open>start_row\<close> to \<open>start_row + N - 1\<close> are written, no other
  row is touched, and with \<open>N = 0\<close> the sheet is unchanged.
\<close>

lemma extractor_rows_without_exception:
  assumes "fromstring lx xml_content = Inr (Some root)"
    and "\<forall>li\<in>set (xpath_nodes lx root ''//purchaseOrder//lineItems//lineItem'').
           seq_convertible (join '' '' (xpath_strs lx li ''./@sequenceNumber''))"
    and "N = length (xpath_nodes lx root ''//purchaseOrder//lineItems//lineItem'')"
  shows "\<exists>sh'. process_xml_and_populate_xl_sheet lx xml_content sh r = Inr (sh', r + N) \<and>
           (\<forall>k c. k < N \<and> 1 \<le> c \<and> c \<le> 20 \<longrightarrow> sh' (r + k, c) \<noteq> None) \<and>
           (\<forall>r0 c. \<not> (r \<le> r0 \<and> r0 < r + N) \<longrightarrow> sh' (r0, c) = sh (r0, c)) \<and>
           (N = 0 \<longrightarrow> sh' = sh)"
proof -
  from column_data_total[OF assms(2)] obtain data n where c: "column_data lx root = Inr (data, n)"
    by blast
  from column_data_Inr[OF c] assms(3) have len: "length data = 20" and n: "n = N" by simp_all
  let ?sh' = "fst (write_rows data N sh r)"
  have p: "process_xml_and_populate_xl_sheet lx xml_content sh r = Inr (?sh', r + N)"
    using assms(1) c n write_rows_snd[of data N sh r]
    by (simp add: process_xml_and_populate_xl_sheet_def prod_eq_iff)
  have a: "\<forall>k c. k < N \<and> 1 \<le> c \<and> c \<le> 20 \<longrightarrow> ?sh' (r + k, c) \<noteq> None"
    by (simp add: write_rows_apply len)
  have b: "\<forall>r0 c. \<not> (r \<le> r0 \<and> r0 < r + N) \<longrightarrow> ?sh' (r0, c) = sh (r0, c)"
    by (auto simp: write_rows_apply)
  have z: "N = 0 \<longrightarrow> ?sh' = sh"
    by (auto simp: write_rows_apply fun_eq_iff)
  from p a b z show ?thesis by blast
qed

section \<open>Running the scanner\<close>


lemma scan_done: "length colA \<le> i \<Longrightarrow> scan lx colA i st = Some (Inr st)"
  by (simp add: scan.simps[of lx colA i st])

lemma scan_step:
  "step lx colA i st = Inr (i', st') \<Longrightarrow> i < length colA \<Longrightarrow> scan lx colA i st = scan lx colA i' st'"
  by (simp add: scan.simps[of lx colA i st])

lemma scan_raise:
  "step lx colA i st = Inl e \<Longrightarrow> i < length colA \<Longrightarrow> scan lx colA i st = Some (Inl e)"
  by (simp add: scan.simps[of lx colA i st])

lemma utf8_len_le: "utf8_len s \<le> 2 * length s"
  unfolding utf8_len_def by (induction s) auto

lemma step_single:
  assumes "found OPEN_TAG_RE (colA ! i)" and "found CLOSE_TAG_RE (colA ! i)"
    and "utf8_len (colA ! i) \<le> MAX_XML_BYTES"
  shows "step lx colA i st = extract_and_process lx (colA ! i) i (i + 1) st"
  using assms by (simp add: step_def)

lemma step_multi:
  assumes "multi_row colA i"
    and "accumulate colA i [colA ! i] (i + 1) = (parts, j, ws)"
    and "j < length colA"
    and "utf8_len (concat (parts @ [colA ! j])) \<le> MAX_XML_BYTES"
  shows "step lx colA i st =
           extract_and_process lx (concat (parts @ [colA ! j])) i (j + 1) (st\<lparr>warnings := warnings st @ ws\<rparr>)"
  using assms by (auto simp: step_def multi_row_def Let_def)

lemma accumulate_stop:
  "j < length colA \<Longrightarrow> found CLOSE_TAG_RE (colA ! j) \<Longrightarrow> accumulate colA i parts j = (parts, j, [])"
  by (simp add: accumulate.simps[of colA i parts j])

lemma accumulate_end:
  "length colA \<le> j \<Longrightarrow> accumulate colA i parts j = (parts, j, [])"
  by (simp add: accumulate.simps[of colA i parts j])

lemma accumulate_break:
  "j < length colA \<Longrightarrow> \<not> found CLOSE_TAG_RE (colA ! j) \<Longrightarrow> MAX_PARTS \<le> length parts \<Longrightarrow>
   accumulate colA i parts j = (parts @ [colA ! j], j, [ChunkTooLarge (i + 1)])"
  by (simp add: accumulate.simps[of colA i parts j])

lemma accumulate_mid:
  assumes "\<forall>c\<in>set mid. \<not> found CLOSE_TAG_RE c"
    and "length parts + length mid \<le> MAX_PARTS"
  shows "accumulate (pre @ mid @ rest) i parts (length pre) =
         accumulate (pre @ mid @ rest) i (parts @ mid) (length pre + length mid)"
  using assms
proof (induction mid arbitrary: pre parts)
  case Nil
  show ?case by simp
next
  case (Cons c mid)
  have nth: "(pre @ (c # mid) @ rest) ! length pre = c" by simp
  from Cons.prems have nc: "\<not> found CLOSE_TAG_RE c" and small: "\<not> MAX_PARTS < Suc (length parts)"
    by auto
  have "accumulate (pre @ (c # mid) @ rest) i parts (length pre) =
        accumulate (pre @ (c # mid) @ rest) i (parts @ [c]) (length pre + 1)"
    using nc small by (simp add: accumulate.simps[of "pre @ (c # mid) @ rest" i parts "length pre"] nth del: append.simps)
  also have "\<dots> = accumulate ((pre @ [c]) @ mid @ rest) i (parts @ [c]) (length (pre @ [c]))"
    by simp
  also have "\<dots> = accumulate ((pre @ [c]) @ mid @ rest) i ((parts @ [c]) @ mid) (length (pre @ [c]) + length mid)"
    using Cons.prems by (intro Cons.IH) auto
  finally show ?case by simp
qed

lemma extract_and_process_cases:
  "extract_and_process lx raw i n st =
     (case extract_and_process lx raw i 0 st of Inl e \<Rightarrow> Inl e | Inr (k, st') \<Rightarrow> Inr (n, st'))"
  by (auto simp: extract_and_process_def split: sum.splits)


lemma split_accumulate:
  assumes "\<forall>c\<in>set mid. \<not> found CLOSE_TAG_RE c" and "found CLOSE_TAG_RE cl"
    and "length mid < MAX_PARTS"
  shows "accumulate (c0 # mid @ [cl]) 0 [c0] 1 = (c0 # mid, 1 + length mid, [])"
proof -
  have "accumulate ([c0] @ mid @ [cl]) 0 [c0] (length [c0]) =
        accumulate ([c0] @ mid @ [cl]) 0 ([c0] @ mid) (length [c0] + length mid)"
    using assms(1,3) by (intro accumulate_mid) auto
  moreover have "accumulate ([c0] @ mid @ [cl]) 0 ([c0] @ mid) (length [c0] + length mid) =
        ([c0] @ mid, length [c0] + length mid, [])"
    using assms(2) by (intro accumulate_stop) (auto simp: nth_append)
  ultimately show ?thesis by simp
qed

lemma split_scan:
  assumes acc: "accumulate (c0 # mid @ [cl]) 0 [c0] 1 = (c0 # mid, 1 + length mid, [])"
    and ind: "found OPEN_TAG_RE c0 \<or> contains ''<?xml'' c0"
    and nc0: "\<not> found CLOSE_TAG_RE c0"
    and M: "M = concat (c0 # mid @ [cl])"
    and oM: "found OPEN_TAG_RE M" and cM: "found CLOSE_TAG_RE M"
  shows "outcome (scan lx (c0 # mid @ [cl]) 0 st) = outcome (scan lx [M] 0 st)"
proof -
  let ?cells = "c0 # mid @ [cl]"
  let ?j = "1 + length mid"
  have len: "length ?cells = ?j + 1" by simp
  have nthj: "?cells ! ?j = cl" by (simp add: nth_append)
  have raw: "concat ((c0 # mid) @ [?cells ! ?j]) = M" unfolding nthj M by simp
  have mr: "multi_row ?cells 0" using ind nc0 by (simp add: multi_row_def)
  show ?thesis
  proof (cases "utf8_len M > MAX_XML_BYTES")
    case True
    have s1: "step lx ?cells 0 st = Inr (?j + 1, warn (ChunkExceedsSize 1) st)"
      using ind nc0 acc True raw by (simp add: step_def Let_def nth_append warn_def)
    have s2: "step lx [M] 0 st = Inr (1, warn (SingleCellTooLarge 1) st)"
      using oM cM True by (simp add: step_def)
    have "scan lx ?cells 0 st = Some (Inr (warn (ChunkExceedsSize 1) st))"
      using scan_step[OF s1] scan_done[of ?cells "?j + 1" lx] by simp
    moreover have "scan lx [M] 0 st = Some (Inr (warn (SingleCellTooLarge 1) st))"
      using scan_step[OF s2] scan_done[of "[M]" 1 lx] by simp
    ultimately show ?thesis by (simp add: outcome_def warn_def)
  next
    case False
    then have sz: "utf8_len M \<le> MAX_XML_BYTES" by simp
    have "step lx ?cells 0 st =
            extract_and_process lx (concat ((c0 # mid) @ [?cells ! ?j])) 0 (?j + 1) (st\<lparr>warnings := warnings st @ []\<rparr>)"
      using mr acc sz M by (intro step_multi) (auto simp: nth_append)
    then have s1: "step lx ?cells 0 st = extract_and_process lx M 0 (?j + 1) st"
      unfolding raw by simp
    have s2: "step lx [M] 0 st = extract_and_process lx M 0 1 st"
      using step_single[of "[M]" 0 lx st] oM cM sz by simp
    show ?thesis
    proof (cases "extract_and_process lx M 0 0 st")
      case (Inl e)
      then have "step lx ?cells 0 st = Inl e" "step lx [M] 0 st = Inl e"
        unfolding s1 s2 by (subst extract_and_process_cases, simp)+
      then have "scan lx ?cells 0 st = Some (Inl e)" "scan lx [M] 0 st = Some (Inl e)"
        by (auto intro: scan_raise)
      then show ?thesis by simp
    next
      case (Inr p)
      obtain k st' where p: "p = (k, st')" by (cases p)
      from Inr p have a: "step lx ?cells 0 st = Inr (?j + 1, st')" and b: "step lx [M] 0 st = Inr (1, st')"
        unfolding s1 s2 by (subst extract_and_process_cases, simp)+
      have "scan lx ?cells 0 st = Some (Inr st')"
        using scan_step[OF a] scan_done[of ?cells "?j + 1" lx] by simp
      moreover have "scan lx [M] 0 st = Some (Inr st')"
        using scan_step[OF b] scan_done[of "[M]" 1 lx] by simp
      ultimately show ?thesis by simp
    qed
  qed
qed

section \<open>Facts about the sample documents\<close>

lemma parse_A: "fromstring sample_lxml message_A = Inr (Some tree_A)"
  by (simp add: sample_lxml_def tree_lxml_def sample_parse_def)

lemma parse_C: "fromstring sample_lxml message_C = Inr (Some tree_C)"
  by code_simp

lemma items_A: "length (xpath_nodes sample_lxml tree_A ''//purchaseOrder//lineItems//lineItem'') = 2"
  by code_simp

lemma items_C: "length (xpath_nodes sample_lxml tree_C ''//purchaseOrder//lineItems//lineItem'') = 2"
  by code_simp

lemma conv_A:
  "\<forall>li\<in>set (xpath_nodes sample_lxml tree_A ''//purchaseOrder//lineItems//lineItem'').
     seq_convertible (join '' '' (xpath_strs sample_lxml li ''./@sequenceNumber''))"
  by code_simp

lemma conv_C:
  "\<forall>li\<in>set (xpath_nodes sample_lxml tree_C ''//purchaseOrder//lineItems//lineItem'').
     seq_convertible (join '' '' (xpath_strs sample_lxml li ''./@sequenceNumber''))"
  by code_simp

lemma address_C:
  "join ''; '' (rev (xpath_strs sample_lxml tree_C
     ''//purchaseOrder//header//purchaseOrderDetails//purchaseOrderDetail[@type=\"shiptoaddress\"]/text()''))
   = ''Springfield; Main St 1''"
  by code_simp

lemma open_A: "found OPEN_TAG_RE message_A" by code_simp
lemma close_A: "found CLOSE_TAG_RE message_A" by code_simp
lemma extract_A: "extract_messages message_A = Inr [message_A]" by code_simp
lemma length_A: "length message_A = 160" by code_simp
lemma length_B: "length message_B = 127" by code_simp

lemma size_A: "utf8_len message_A \<le> MAX_XML_BYTES"
  using utf8_len_le[of message_A] by (simp add: length_A MAX_XML_BYTES_def)

lemma process_messages_A:
  "\<exists>sh'. process_messages sample_lxml [message_A] st =
           Inr (st\<lparr>ws_out := sh', current_row := current_row st + 2\<rparr>)"
  using process_returns[OF parse_A conv_A, of "ws_out st" "current_row st"] items_A
  by auto

lemma extract_and_process_A:
  assumes "extract_messages raw = Inr [message_A]"
  shows "\<exists>sh'. extract_and_process sample_lxml raw i n st =
           Inr (n, st\<lparr>ws_out := sh', current_row := current_row st + 2\<rparr>)"
  using process_messages_A[of st] assms by (auto simp: extract_and_process_def)

lemma single_A:
  "\<exists>sh'. process_excel sample_lxml [message_A] =
           Some (Inr (start_state\<lparr>ws_out := sh', current_row := 4\<rparr>))"
proof -
  have "step sample_lxml [message_A] 0 start_state =
          extract_and_process sample_lxml message_A 0 1 start_state"
    using step_single[of "[message_A]" 0 sample_lxml start_state] open_A close_A size_A by simp
  with extract_and_process_A[OF extract_A, of 0 1 start_state]
  obtain sh' where s: "step sample_lxml [message_A] 0 start_state =
      Inr (1, start_state\<lparr>ws_out := sh', current_row := current_row start_state + 2\<rparr>)"
    by auto
  have "scan sample_lxml [message_A] 0 start_state =
      Some (Inr (start_state\<lparr>ws_out := sh', current_row := current_row start_state + 2\<rparr>))"
    using scan_step[OF s] scan_done[of "[message_A]" 1 sample_lxml] by simp
  then show ?thesis by (auto simp: process_excel_def start_state_def)
qed

lemma split_A_cells:
  "split_A = take 50 message_A # [take 50 (drop 50 message_A)] @ [drop 100 message_A]"
  by (simp add: split_A_def)

lemma split_A_concat: "message_A = concat split_A"
  by (simp add: split_A_def) (metis append_take_drop_id drop_drop numeral_Bit0 add.commute)

lemma split_A_first: "found OPEN_TAG_RE (take 50 message_A) \<and> \<not> found CLOSE_TAG_RE (take 50 message_A)"
  by code_simp

lemma split_A_mid: "\<forall>c\<in>set [take 50 (drop 50 message_A)]. \<not> found CLOSE_TAG_RE c"
  by code_simp

lemma split_A_last: "found CLOSE_TAG_RE (drop 100 message_A)"
  by code_simp

lemma in_tag_row0: "\<not> found OPEN_TAG_RE (split_in_tag ! 0) \<and> \<not> contains ''<?xml'' (split_in_tag ! 0)"
  by code_simp

lemma in_tag_row1: "\<not> found OPEN_TAG_RE (split_in_tag ! 1) \<and> \<not> contains ''<?xml'' (split_in_tag ! 1)"
  by code_simp

lemma in_tag_scan: "process_excel sample_lxml split_in_tag = Some (Inr start_state)"
proof -
  have l: "length split_in_tag = 2" by (simp add: split_in_tag_def)
  have s0: "step sample_lxml split_in_tag 0 start_state = Inr (0 + 1, start_state)"
    using in_tag_row0 by (intro step_no_indicator) auto
  have s1: "step sample_lxml split_in_tag 1 start_state = Inr (1 + 1, start_state)"
    using in_tag_row1 by (intro step_no_indicator) auto
  from scan_step[OF s0] scan_step[OF s1] scan_done[of split_in_tag 2 sample_lxml start_state] l
  show ?thesis by (simp add: process_excel_def numeral_2_eq_2)
qed

lemma declaration_chunk: "extract_messages (declaration_rows ! 0 @ declaration_rows ! Suc 0) = Inl ValueError"
  by code_simp

lemma declaration_facts:
  "multi_row declaration_rows 0 \<and> found CLOSE_TAG_RE (declaration_rows ! 1)"
  by code_simp

lemma declaration_step:
  "step sample_lxml declaration_rows 0 start_state = Inr (2, warn (ExtractionFailed 1 ValueError) start_state)"
proof -
  have l: "length declaration_rows = 2" by (simp add: declaration_rows_def)
  have a: "accumulate declaration_rows 0 [declaration_rows ! 0] (0 + 1) = ([declaration_rows ! 0], 1, [])"
    using declaration_facts l by (simp add: accumulate_stop)
  have z: "utf8_len (concat ([declaration_rows ! 0] @ [declaration_rows ! 1])) \<le> MAX_XML_BYTES"
    using utf8_len_le[of "concat ([declaration_rows ! 0] @ [declaration_rows ! 1])"]
    by (simp add: declaration_rows_def MAX_XML_BYTES_def)
  from step_multi[OF conjunct1[OF declaration_facts] a _ z, of sample_lxml start_state] l
  show ?thesis by (simp add: extract_and_process_def declaration_chunk numeral_2_eq_2)
qed

lemma parse_B: "fromstring sample_lxml message_B = Inr (Some tree_B)"
  by code_simp

lemma column_data_B: "column_data sample_lxml tree_B = Inl ValueError"
  by code_simp

lemma process_B: "process_xml_and_populate_xl_sheet sample_lxml message_B sh r = Inl ValueError"
  by (simp add: process_xml_and_populate_xl_sheet_def parse_B column_data_B)

lemma sibling_cell:
  "found OPEN_TAG_RE (message_B @ message_A) \<and> found CLOSE_TAG_RE (message_B @ message_A)"
  by code_simp

lemma sibling_extract: "extract_messages (message_B @ message_A) = Inr [message_B, message_A]"
  by code_simp

lemma sibling_size: "utf8_len (message_B @ message_A) \<le> MAX_XML_BYTES"
  using utf8_len_le[of "message_B @ message_A"] by (simp add: length_A length_B MAX_XML_BYTES_def)

lemma long_first: "found OPEN_TAG_RE (butlast message_A) \<and> \<not> found CLOSE_TAG_RE (butlast message_A)"
  by code_simp

lemma long_other: "\<not> found CLOSE_TAG_RE [] \<and> \<not> found CLOSE_TAG_RE ''>''"
  by code_simp

lemma long_extract: "extract_messages (butlast message_A @ ''>>'') = Inr [message_A]"
  by code_simp

lemma long_accumulate:
  "accumulate long_rows 0 [butlast message_A] 1 =
     (butlast message_A # replicate 999 [] @ [''>''], 1000, [ChunkTooLarge 1])"
proof -
  have "accumulate ([butlast message_A] @ replicate 999 [] @ [''>'']) 0 [butlast message_A] (length [butlast message_A]) =
        accumulate ([butlast message_A] @ replicate 999 [] @ [''>'']) 0 ([butlast message_A] @ replicate 999 [])
          (length [butlast message_A] + length (replicate 999 ([]::string)))"
    using long_other by (intro accumulate_mid) (auto simp: MAX_PARTS_def)
  moreover have "accumulate ([butlast message_A] @ replicate 999 [] @ [''>'']) 0 ([butlast message_A] @ replicate 999 []) 1000 =
      (([butlast message_A] @ replicate 999 []) @ [([butlast message_A] @ replicate 999 [] @ [''>'']) ! 1000], 1000, [ChunkTooLarge (0 + 1)])"
    using long_other by (intro accumulate_break) (auto simp: MAX_PARTS_def nth_append)
  ultimately show ?thesis by (simp add: long_rows_def nth_append)
qed

lemma items_B: "length (xpath_nodes sample_lxml tree_B ''//purchaseOrder//lineItems//lineItem'') = 1"
  by code_simp

lemma stray_facts:
  "\<not> found OPEN_TAG_RE (stray_rows ! 0) \<and> contains ''<?xml'' (stray_rows ! 0) \<and>
   \<not> contains ''?>'' (stray_rows ! 0) \<and> \<not> found CLOSE_TAG_RE (stray_rows ! 0) \<and>
   found CLOSE_TAG_RE (stray_rows ! 1) \<and>
   \<not> found OPEN_TAG_RE (stray_rows ! 1) \<and> \<not> contains ''<?xml'' (stray_rows ! 1)"
  by code_simp

lemma stray_extract: "extract_messages (stray_rows ! 0 @ stray_rows ! Suc 0) = Inr [message_A]"
  by code_simp

lemma stray_step:
  "\<exists>sh'. step sample_lxml stray_rows 0 start_state =
     Inr (2, start_state\<lparr>ws_out := sh', current_row := 4\<rparr>)"
proof -
  have l: "length stray_rows = 2" by (simp add: stray_rows_def)
  have mr: "multi_row stray_rows 0" using stray_facts by (simp add: multi_row_def)
  have a: "accumulate stray_rows 0 [stray_rows ! 0] (0 + 1) = ([stray_rows ! 0], 1, [])"
    using stray_facts l by (simp add: accumulate_stop)
  have z: "utf8_len (concat ([stray_rows ! 0] @ [stray_rows ! 1])) \<le> MAX_XML_BYTES"
    using utf8_len_le[of "concat ([stray_rows ! 0] @ [stray_rows ! 1])"]
    by (simp add: stray_rows_def MAX_XML_BYTES_def length_A)
  from step_multi[OF mr a _ z, of sample_lxml start_state] l
  have "step sample_lxml stray_rows 0 start_state =
      extract_and_process sample_lxml (stray_rows ! 0 @ stray_rows ! Suc 0) 0 2 start_state"
    by (simp add: numeral_2_eq_2)
  with extract_and_process_A[OF stray_extract, of 0 2 start_state]
  show ?thesis by (auto simp: start_state_def)
qed

section \<open>Parsing and printing dates\<close>

lemma below_10: "(k::nat) < 10 \<Longrightarrow> k = 0 \<or> k = 1 \<or> k = 2 \<or> k = 3 \<or> k = 4 \<or> k = 5 \<or> k = 6 \<or> k = 7 \<or> k = 8 \<or> k = 9"
  by arith

lemma digit_char_cp: "cp (digit_char n) = 48 + n mod 10"
proof -
  have "n mod 10 < 10" by simp
  from below_10[OF this] show ?thesis
    by (elim disjE) (simp_all add: digit_char_def cp_def)
qed

lemma digit_char_decimal: "is_decimal (digit_char n)"
  by (simp add: is_decimal_def digit_char_cp)

lemma digit_char_val: "digit_val (digit_char n) = n mod 10"
  by (simp add: digit_val_def digit_char_cp)

lemma digit_char_range: "in_range (digit_char n) lo hi \<longleftrightarrow> lo \<le> n mod 10 \<and> n mod 10 \<le> hi"
  by (simp add: in_range_def digit_char_cp)

lemma char_eq_cp: "a = b \<longleftrightarrow> cp a = cp b"
  by (auto simp: cp_def)

lemma digit_char_is:
  "digit_char n = CHR ''0'' \<longleftrightarrow> n mod 10 = 0"
  "digit_char n = CHR ''1'' \<longleftrightarrow> n mod 10 = 1"
  "digit_char n = CHR ''3'' \<longleftrightarrow> n mod 10 = 3"
  "digit_char n \<noteq> CHR ''-''"
  "digit_char n \<noteq> CHR '' ''"
  using digit_char_cp[of n] by (auto simp: char_eq_cp[of "digit_char n"] cp_def)

lemma year_value:
  "y \<le> 9999 \<Longrightarrow> 1000 * (y div 1000 mod 10) + 100 * (y div 100 mod 10) + 10 * (y div 10 mod 10) + y mod 10 = (y::nat)"
proof -
  assume "y \<le> 9999"
  then have a: "y div 1000 mod 10 = y div 1000" by simp
  have b: "y div 100 = 10 * (y div 1000) + y div 100 mod 10"
    using div_mult2_eq[of y 100 10] by simp
  have c: "y div 10 = 10 * (y div 100) + y div 10 mod 10"
    using div_mult2_eq[of y 10 10] by simp
  have d: "y = 10 * (y div 10) + y mod 10" by simp
  from a b c d show ?thesis by linarith
qed

lemma year_of_pad4: "y \<le> 9999 \<Longrightarrow> year_of (pad4 y @ rest) = Some (y, rest)"
  using year_value[of y] by (simp add: pad4_def digit_char_decimal digit_char_val)

lemma month_of_pad2:
  assumes "1 \<le> m" and "m \<le> 12"
  shows "month_of (pad2 m @ rest) = Some (m, rest)"
proof (cases "m < 10")
  case True
  with assms have "m div 10 = 0" "m mod 10 = m" by simp_all
  with assms True show ?thesis
    by (simp add: month_of_def pad2_def digit_char_is digit_char_range digit_char_val)
next
  case False
  with assms have "m div 10 = 1" "m mod 10 = m - 10" "m mod 10 \<le> 2" by presburger+
  with assms False show ?thesis
    by (simp add: month_of_def pad2_def digit_char_is digit_char_range digit_char_val)
qed

lemma day_of_pad2:
  assumes "1 \<le> d" and "d \<le> 31"
  shows "day_of (pad2 d) = Some (d, [])"
proof -
  consider "d < 10" | "10 \<le> d \<and> d < 20" | "20 \<le> d \<and> d < 30" | "30 \<le> d" by arith
  then show ?thesis
  proof cases
    case 1
    with assms have "d div 10 = 0" "d mod 10 = d" by simp_all
    with assms 1 show ?thesis
      by (simp add: day_of_def pad2_def digit_char_is digit_char_range
            digit_char_val digit_char_decimal)
  next
    case 2
    then have "d div 10 = 1" "d mod 10 = d - 10" by presburger+
    with assms 2 show ?thesis
      by (simp add: day_of_def pad2_def digit_char_is digit_char_range
            digit_char_val digit_char_decimal)
  next
    case 3
    then have "d div 10 = 2" "d mod 10 = d - 20" by presburger+
    with assms 3 show ?thesis
      by (simp add: day_of_def pad2_def digit_char_is digit_char_range
            digit_char_val digit_char_decimal)
  next
    case 4
    with assms have "d div 10 = 3" "d mod 10 = d - 30" "d mod 10 \<le> 1" by presburger+
    with assms 4 show ?thesis
      by (simp add: day_of_def pad2_def digit_char_is digit_char_range
            digit_char_val digit_char_decimal)
  qed
qed

lemma days_in_month_le: "days_in_month y m \<le> 31"
  by (simp add: days_in_month_def)

lemma strptime_formatted:
  assumes "valid_date y m d"
  shows "strptime (pad4 y @ ''-'' @ pad2 m @ ''-'' @ pad2 d) = Inr (y, m, d)"
proof -
  from assms have y: "y \<le> 9999" and m: "1 \<le> m" "m \<le> 12" and d: "1 \<le> d" "d \<le> 31"
    using days_in_month_le[of y m] by (auto simp: valid_date_def)
  have my: "month_of (pad2 m @ CHR ''-'' # pad2 d) = Some (m, CHR ''-'' # pad2 d)"
    using m by (rule month_of_pad2)
  have yy: "year_of (pad4 y @ CHR ''-'' # pad2 m @ CHR ''-'' # pad2 d) =
      Some (y, CHR ''-'' # pad2 m @ CHR ''-'' # pad2 d)"
    using y by (rule year_of_pad4)
  show ?thesis
    using assms by (simp add: strptime_def yy my day_of_pad2[OF d])
qed

lemma decimal_not_space: "is_decimal a \<Longrightarrow> \<not> is_space a"
  by (auto simp: is_decimal_def is_space_def)

lemma dropWhile_snoc_end: "\<not> P a \<Longrightarrow> \<exists>u. dropWhile P (xs @ [a]) = u @ [a]"
  by (induction xs) auto

lemma py_strip_head:
  assumes "\<not> is_space a"
  shows "\<exists>u. py_strip (a # t) = a # u"
proof -
  from dropWhile_snoc_end[where P = is_space and a = a and xs = "rev t", OF assms] obtain u where
    "dropWhile is_space (rev t @ [a]) = u @ [a]" by blast
  with assms show ?thesis by (simp add: py_strip_def)
qed

lemma strptime_Inr_head: "strptime s = Inr dt \<Longrightarrow> \<exists>a t. s = a # t \<and> is_decimal a"
  by (cases s rule: year_of.cases) (auto simp: strptime_def split: if_splits)

lemma N_not_decimal: "\<not> is_decimal (CHR ''N'')"
  by (simp add: is_decimal_def cp_def)

lemma strptime_Inr_strip:
  assumes "strptime s = Inr dt"
  shows "py_strip s \<noteq> ''None'' \<and> py_strip s \<noteq> []"
proof -
  from strptime_Inr_head[OF assms] obtain a t where s: "s = a # t" and a: "is_decimal a" by blast
  from py_strip_head[OF decimal_not_space[OF a], of t] obtain u where "py_strip s = a # u"
    unfolding s by blast
  with a N_not_decimal show ?thesis by auto
qed

lemma po_create_date_eq:
  "po_create_date s = (case strptime s of Inl e \<Rightarrow> [] | Inr dt \<Rightarrow> strftime dt)"
proof (cases "s = []")
  case True
  then show ?thesis by (simp add: po_create_date_def strptime_def)
next
  case False
  then show ?thesis by (simp add: po_create_date_def)
qed

lemma expc_ship_date_eq:
  "expc_ship_date s = (case strptime s of Inl e \<Rightarrow> [] | Inr dt \<Rightarrow> strftime dt)"
proof (cases "strptime s")
  case (Inl e)
  then show ?thesis by (simp add: expc_ship_date_def)
next
  case (Inr dt)
  with strptime_Inr_strip[OF Inr] show ?thesis by (simp add: expc_ship_date_def)
qed

lemma py_str_four:
  assumes "1000 \<le> y" and "y \<le> 9999"
  shows "py_str y = pad4 y"
proof -
  from assms have a: "\<not> y < 10" "\<not> y div 10 < 10" "\<not> y div 100 < 10" "y div 1000 < 10" by simp_all
  have d2: "y div 10 div 10 = y div 100" and d3: "y div 100 div 10 = y div 1000"
    by (simp_all add: div_mult2_eq[symmetric])
  have "py_str (y div 1000) = [digit_char (y div 1000)]"
    using a(4) by (simp add: py_str.simps[of "y div 1000"])
  then have "py_str (y div 100) = [digit_char (y div 1000), digit_char (y div 100)]"
    using a(3) d3 by (simp add: py_str.simps[of "y div 100"])
  then have "py_str (y div 10) = [digit_char (y div 1000), digit_char (y div 100), digit_char (y div 10)]"
    using a(2) d2 by (simp add: py_str.simps[of "y div 10"])
  then show ?thesis
    using a(1) by (simp add: py_str.simps[of y] pad4_def)
qed

text \<open>
  From the year 1000 on, both date fields map the text \<open>YYYY-MM-DD\<close> of a date of the
  calendar to \<open>DD.MM.YYYY\<close>; they map the empty text and every text on which
  \<open>strptime\<close> raises to the empty text, and no exception leaves them.
\<close>

lemma date_fields_from_year_1000:
  "(valid_date y m d \<and> 1000 \<le> y \<longrightarrow>
      po_create_date (pad4 y @ ''-'' @ pad2 m @ ''-'' @ pad2 d) = pad2 d @ ''.'' @ pad2 m @ ''.'' @ pad4 y \<and>
      expc_ship_date (pad4 y @ ''-'' @ pad2 m @ ''-'' @ pad2 d) = pad2 d @ ''.'' @ pad2 m @ ''.'' @ pad4 y) \<and>
   po_create_date [] = [] \<and> expc_ship_date [] = [] \<and>
   (\<forall>e. strptime s = Inl e \<longrightarrow> po_create_date s = [] \<and> expc_ship_date s = []) \<and>
   po_create_date s = (case strptime s of Inl e \<Rightarrow> [] | Inr dt \<Rightarrow> strftime dt) \<and>
   expc_ship_date s = (case strptime s of Inl e \<Rightarrow> [] | Inr dt \<Rightarrow> strftime dt)"
proof -
  have a: "valid_date y m d \<and> 1000 \<le> y \<longrightarrow>
      po_create_date (pad4 y @ ''-'' @ pad2 m @ ''-'' @ pad2 d) = pad2 d @ ''.'' @ pad2 m @ ''.'' @ pad4 y \<and>
      expc_ship_date (pad4 y @ ''-'' @ pad2 m @ ''-'' @ pad2 d) = pad2 d @ ''.'' @ pad2 m @ ''.'' @ pad4 y"
  proof
    assume h: "valid_date y m d \<and> 1000 \<le> y"
    then have "y \<le> 9999" by (simp add: valid_date_def)
    with h have p: "py_str y = pad4 y" by (simp add: py_str_four)
    from h strptime_formatted[of y m d] show
      "po_create_date (pad4 y @ ''-'' @ pad2 m @ ''-'' @ pad2 d) = pad2 d @ ''.'' @ pad2 m @ ''.'' @ pad4 y \<and>
       expc_ship_date (pad4 y @ ''-'' @ pad2 m @ ''-'' @ pad2 d) = pad2 d @ ''.'' @ pad2 m @ ''.'' @ pad4 y"
      by (simp add: po_create_date_eq expc_ship_date_eq strftime_def p)
  qed
  have b: "po_create_date [] = [] \<and> expc_ship_date [] = []"
    by (simp add: po_create_date_def expc_ship_date_def py_strip_def)
  have c: "\<forall>e. strptime s = Inl e \<longrightarrow> po_create_date s = [] \<and> expc_ship_date s = []"
    by (simp add: po_create_date_eq expc_ship_date_eq)
  from a b c po_create_date_eq[of s] expc_ship_date_eq[of s] show ?thesis by blast
qed

section \<open>The claims\<close>

text \<open>
  C1 on the code. The first row of \<open>long_rows\<close> has an opening tag and no closing tag,
  and none of the 1000 rows after it has a closing tag, so the part count passes 1000 and
  the warning of the part cap is written. The scanner then still joins the parts, finds
  the first sample document in them and writes its two rows: the output row cursor ends
  at 4.
\<close>

theorem part_count_exceeded_still_extracts:
  "length long_rows = 1001 \<and> butlast message_A @ ''>'' = message_A \<and>
   summary (process_excel sample_lxml long_rows) = Some (Inr (4, [ChunkTooLarge 1]))"
proof -
  have l: "length long_rows = 1001" by (simp add: long_rows_def)
  have b: "butlast message_A @ ''>'' = message_A" by code_simp
  have r0: "long_rows ! 0 = butlast message_A" by (simp add: long_rows_def)
  have r1000: "long_rows ! 1000 = ''>''" by (simp add: long_rows_def nth_append)
  have mr: "multi_row long_rows 0" using long_first by (simp add: multi_row_def r0)
  have acc: "accumulate long_rows 0 [long_rows ! 0] (0 + 1) =
     (butlast message_A # replicate 999 [] @ [''>''], 1000, [ChunkTooLarge 1])"
    using long_accumulate by (simp add: r0)
  have raw: "concat ((butlast message_A # replicate 999 [] @ [''>'']) @ [long_rows ! 1000]) = butlast message_A @ ''>>''"
    by (simp add: r1000)
  have sz: "utf8_len (concat ((butlast message_A # replicate 999 [] @ [''>'']) @ [long_rows ! 1000])) \<le> MAX_XML_BYTES"
    unfolding raw using utf8_len_le[of "butlast message_A @ ''>>''"]
    by (simp add: length_A MAX_XML_BYTES_def)
  have "step sample_lxml long_rows 0 start_state =
      extract_and_process sample_lxml (butlast message_A @ ''>>'') 0 (1000 + 1)
        (start_state\<lparr>warnings := warnings start_state @ [ChunkTooLarge 1]\<rparr>)"
    using step_multi[OF mr acc _ sz, of sample_lxml start_state] l unfolding raw by simp
  with extract_and_process_A[OF long_extract, of 0 "1000 + 1" "start_state\<lparr>warnings := warnings start_state @ [ChunkTooLarge 1]\<rparr>"]
  obtain sh' where s: "step sample_lxml long_rows 0 start_state =
      Inr (1000 + 1, start_state\<lparr>warnings := warnings start_state @ [ChunkTooLarge 1],
             ws_out := sh', current_row := current_row start_state + 2\<rparr>)"
    by auto
  have "scan sample_lxml long_rows 0 start_state =
      Some (Inr (start_state\<lparr>warnings := warnings start_state @ [ChunkTooLarge 1],
             ws_out := sh', current_row := current_row start_state + 2\<rparr>))"
    using scan_step[OF s] scan_done[of long_rows "1000 + 1" sample_lxml] l by simp
  then have "summary (process_excel sample_lxml long_rows) = Some (Inr (4, [ChunkTooLarge 1]))"
    by (simp add: process_excel_def summary_def start_state_def)
  with l b show ?thesis by blast
qed

text \<open>
  C2 on the code. The first cell of \<open>sibling_rows\<close> holds two messages. The extractor
  raises \<open>ValueError\<close> on the first; the exception leaves the scanner, so the second
  message and the second row are never processed, and nothing is logged.
\<close>

theorem extractor_exception_aborts_scan:
  "extract_messages (sibling_rows ! 0) = Inr [message_B, message_A] \<and>
   process_excel sample_lxml sibling_rows = Some (Inl ValueError)"
proof -
  have r0: "sibling_rows ! 0 = message_B @ message_A" by (simp add: sibling_rows_def)
  have l: "0 < length sibling_rows" by (simp add: sibling_rows_def)
  have "step sample_lxml sibling_rows 0 start_state =
          extract_and_process sample_lxml (sibling_rows ! 0) 0 (0 + 1) start_state"
    using sibling_cell sibling_size by (intro step_single) (simp_all add: r0)
  then have "step sample_lxml sibling_rows 0 start_state = Inl ValueError"
    by (simp add: r0 extract_and_process_def sibling_extract process_B)
  from scan_raise[OF this l] sibling_extract r0 show ?thesis
    by (simp add: process_excel_def)
qed

text \<open>
  C3 on the code. The second sample document has a tree with one line item. The
  extractor writes no row for it and returns no next row: it raises \<open>ValueError\<close>.
\<close>

theorem line_item_without_output_row:
  "fromstring sample_lxml message_B = Inr (Some tree_B) \<and>
   length (xpath_nodes sample_lxml tree_B ''//purchaseOrder//lineItems//lineItem'') = 1 \<and>
   process_xml_and_populate_xl_sheet sample_lxml message_B header_sheet 2 = Inl ValueError"
  using parse_B items_B process_B[of header_sheet 2] by blast

text \<open>
  C4 as stated fails: the first sample document cut after the thirteenth character,
  inside its opening tag, gives no output row, and gives two output rows in one cell.
\<close>

theorem split_inside_tag_counterexample:
  "concat split_in_tag = message_A \<and>
   outcome (process_excel sample_lxml split_in_tag) \<noteq> outcome (process_excel sample_lxml [message_A])"
proof -
  have c: "concat split_in_tag = message_A" by (simp add: split_in_tag_def)
  from single_A obtain sh' where
    "process_excel sample_lxml [message_A] = Some (Inr (start_state\<lparr>ws_out := sh', current_row := 4\<rparr>))"
    by blast
  then have "outcome (process_excel sample_lxml split_in_tag) \<noteq> outcome (process_excel sample_lxml [message_A])"
    by (simp add: in_tag_scan outcome_def start_state_def)
  with c show ?thesis by blast
qed

text \<open>
  C4, as amended. Cells that hold a message cut into pieces give the same reassembled
  text, and the same sheet and output row cursor, as one cell with the whole message,
  when the first cell has an opening indicator, no cell but the last has a match of the
  closing tag pattern, the last cell has one, at most 999 cells lie between the first
  and the last, and the whole message has a match of the opening and of the closing tag
  pattern.
\<close>

theorem split_message_same_as_single_cell:
  assumes "cells = c0 # mid @ [cl]"
    and "found OPEN_TAG_RE c0 \<or> contains ''<?xml'' c0"
    and "\<not> found CLOSE_TAG_RE c0"
    and "\<forall>c\<in>set mid. \<not> found CLOSE_TAG_RE c"
    and "found CLOSE_TAG_RE cl"
    and "length mid < MAX_PARTS"
    and "M = concat cells"
    and "found OPEN_TAG_RE M" and "found CLOSE_TAG_RE M"
  shows "closing_row cells 0 = length cells - 1 \<and>
         concat (fst (accumulate cells 0 [cells ! 0] 1) @ [cells ! closing_row cells 0]) = M \<and>
         outcome (process_excel lx cells) = outcome (process_excel lx [M])"
proof -
  have acc: "accumulate (c0 # mid @ [cl]) 0 [c0] 1 = (c0 # mid, 1 + length mid, [])"
    using assms(4,5,6) by (rule split_accumulate)
  have cr: "closing_row cells 0 = length cells - 1"
    unfolding assms(1) closing_row_def using acc by simp
  have rea: "concat (fst (accumulate cells 0 [cells ! 0] 1) @ [cells ! closing_row cells 0]) = M"
    unfolding cr unfolding assms(1,7) using acc by (simp add: nth_append)
  have "outcome (scan lx (c0 # mid @ [cl]) 0 start_state) = outcome (scan lx [M] 0 start_state)"
    using acc assms(2,3) assms(7)[unfolded assms(1)] assms(8,9) by (rule split_scan)
  then have "outcome (process_excel lx cells) = outcome (process_excel lx [M])"
    by (simp add: process_excel_def assms(1))
  with cr rea show ?thesis by blast
qed

theorem split_message_same_as_single_cell_witness:
  "split_A = take 50 message_A # [take 50 (drop 50 message_A)] @ [drop 100 message_A] \<and>
   found OPEN_TAG_RE (take 50 message_A) \<and> \<not> found CLOSE_TAG_RE (take 50 message_A) \<and>
   \<not> found CLOSE_TAG_RE (take 50 (drop 50 message_A)) \<and>
   found CLOSE_TAG_RE (drop 100 message_A) \<and> message_A = concat split_A \<and>
   found OPEN_TAG_RE message_A \<and> found CLOSE_TAG_RE message_A \<and>
   closing_row split_A 0 = 2 \<and>
   outcome (process_excel sample_lxml split_A) = outcome (process_excel sample_lxml [message_A])"
proof -
  have m: "length [take 50 (drop 50 message_A)] < MAX_PARTS" by (simp add: MAX_PARTS_def)
  have l: "length split_A = 3" by (simp add: split_A_def)
  from split_message_same_as_single_cell[OF split_A_cells disjI1[OF conjunct1[OF split_A_first]]
      conjunct2[OF split_A_first] split_A_mid split_A_last m split_A_concat open_A close_A,
      of sample_lxml] l
  have "closing_row split_A 0 = 2"
    and "outcome (process_excel sample_lxml split_A) = outcome (process_excel sample_lxml [message_A])"
    by simp_all
  moreover from split_A_mid have "\<not> found CLOSE_TAG_RE (take 50 (drop 50 message_A))" by simp
  ultimately show ?thesis
    using split_A_cells split_A_first split_A_last split_A_concat open_A close_A by blast
qed

text \<open>
  C5 on the code. \<open>"007"\<close> becomes \<open>"7"\<close> and \<open>"A1"\<close> stays; for the sequence number
  \<open>SUPERSCRIPT TWO\<close> \<open>isdigit()\<close> holds, \<open>int()\<close> raises \<open>ValueError\<close>, and the
  extractor raises it on the message that carries it.
\<close>

theorem superscript_sequence_number_raises:
  "normalize_seq ''007'' = Inr ''7'' \<and> normalize_seq ''A1'' = Inr ''A1'' \<and>
   py_isdigit [CHR 0xB2] \<and> normalize_seq [CHR 0xB2] = Inl ValueError \<and>
   process_xml_and_populate_xl_sheet sample_lxml message_B header_sheet 2 = Inl ValueError"
proof -
  have "normalize_seq ''007'' = Inr ''7''" by code_simp
  moreover have "normalize_seq ''A1'' = Inr ''A1''" by code_simp
  moreover have "py_isdigit [CHR 0xB2]" by code_simp
  moreover have "normalize_seq [CHR 0xB2] = Inl ValueError" by code_simp
  ultimately show ?thesis using process_B by blast
qed

text \<open>
  C6 on the code. \<open>"0999-01-01"\<close> is the text of a date of the calendar, and both date
  fields print it as \<open>"01.01.999"\<close>, with a year of three digits; \<open>"0001-12-31"\<close>
  becomes \<open>"31.12.1"\<close>. \<open>"2024-03-07"\<close> becomes \<open>"07.03.2024"\<close>, and a text that is
  no date, or the empty text, becomes the empty text.
\<close>

theorem year_below_1000_printed_short:
  "valid_date 999 1 1 \<and> strptime ''0999-01-01'' = Inr (999, 1, 1) \<and>
   po_create_date ''0999-01-01'' = ''01.01.999'' \<and>
   expc_ship_date ''0999-01-01'' = ''01.01.999'' \<and>
   po_create_date ''0001-12-31'' = ''31.12.1'' \<and>
   po_create_date ''2024-03-07'' = ''07.03.2024'' \<and>
   expc_ship_date ''2024-03-07'' = ''07.03.2024'' \<and>
   po_create_date ''2023-02-29'' = [] \<and> expc_ship_date ''next week'' = [] \<and>
   po_create_date [] = [] \<and> expc_ship_date [] = []"
proof -
  have "valid_date 999 1 1" by code_simp
  moreover have "strptime ''0999-01-01'' = Inr (999, 1, 1)" by code_simp
  moreover have "po_create_date ''0999-01-01'' = ''01.01.999''" by code_simp
  moreover have "expc_ship_date ''0999-01-01'' = ''01.01.999''" by code_simp
  moreover have "po_create_date ''0001-12-31'' = ''31.12.1''" by code_simp
  moreover have "po_create_date ''2024-03-07'' = ''07.03.2024''" by code_simp
  moreover have "expc_ship_date ''2024-03-07'' = ''07.03.2024''" by code_simp
  moreover have "po_create_date ''2023-02-29'' = []" by code_simp
  moreover have "expc_ship_date ''next week'' = []" by code_simp
  moreover have "po_create_date [] = []" by code_simp
  moreover have "expc_ship_date [] = []" by code_simp
  ultimately show ?thesis by blast
qed

text \<open>
  C7. The ADDRESS column (column 15) of every row the extractor writes for a message
  holds the texts selected by the ship-to address path, in reverse document order,
  joined with \<open>"; "\<close>.
\<close>

theorem address_reversed_and_repeated:
  assumes "fromstring lx xml_content = Inr (Some root)"
    and "process_xml_and_populate_xl_sheet lx xml_content sh r = Inr (sh', r')"
  shows "\<forall>k. r \<le> k \<and> k < r' \<longrightarrow>
           sh' (k, 15) = Some (join ''; '' (rev (xpath_strs lx root
             ''//purchaseOrder//header//purchaseOrderDetails//purchaseOrderDetail[@type=\"shiptoaddress\"]/text()'')))"
proof -
  from process_Inr[OF assms] obtain data where
    c: "column_data lx root = Inr (data, length (xpath_nodes lx root ''//purchaseOrder//lineItems//lineItem''))"
    and s: "sh' = fst (write_rows data (length (xpath_nodes lx root ''//purchaseOrder//lineItems//lineItem'')) sh r)"
    and r: "r' = r + length (xpath_nodes lx root ''//purchaseOrder//lineItems//lineItem'')"
    by blast
  from column_data_Inr[OF c] show ?thesis
    unfolding s r by (simp add: write_rows_apply cell_value_def)
qed

theorem address_reversed_and_repeated_witness:
  "fromstring sample_lxml message_C = Inr (Some tree_C) \<and>
   (\<exists>sh'. process_xml_and_populate_xl_sheet sample_lxml message_C header_sheet 2 = Inr (sh', 4) \<and>
      sh' (2, 15) = Some ''Springfield; Main St 1'' \<and>
      sh' (3, 15) = Some ''Springfield; Main St 1'')"
proof -
  from process_returns[OF parse_C conv_C, of header_sheet 2] items_C
  obtain sh' where p: "process_xml_and_populate_xl_sheet sample_lxml message_C header_sheet 2 = Inr (sh', 4)"
    by auto
  from address_reversed_and_repeated[OF parse_C p] address_C
  have a: "\<forall>k. 2 \<le> k \<and> k < 4 \<longrightarrow> sh' (k, 15) = Some ''Springfield; Main St 1''" by simp
  from a[rule_format, of 2] have a2: "sh' (2, 15) = Some ''Springfield; Main St 1''" by simp
  from a[rule_format, of 3] have a3: "sh' (3, 15) = Some ''Springfield; Main St 1''" by simp
  from parse_C p a2 a3 show ?thesis by blast
qed

text \<open>
  C8 as stated fails: the first row of \<open>stray_rows\<close> has no opening tag and no XML
  declaration (it has the text \<open><?xml\<close> and no \<open>?>\<close>), yet the pass through the loop
  body at that row joins it with the next row, extracts the first sample document and
  moves the output row cursor from 2 to 4 and the input cursor from 0 to 2.
\<close>

theorem xml_text_without_declaration_counterexample:
  "\<not> found OPEN_TAG_RE (stray_rows ! 0) \<and> \<not> contains ''?>'' (stray_rows ! 0) \<and>
   \<not> found OPEN_TAG_RE (stray_rows ! 1) \<and> \<not> contains ''<?xml'' (stray_rows ! 1) \<and>
   current_row start_state = 2 \<and>
   cursors (step sample_lxml stray_rows 0 start_state) = Inr (2, 4)"
proof -
  from stray_step obtain sh' where
    "step sample_lxml stray_rows 0 start_state = Inr (2, start_state\<lparr>ws_out := sh', current_row := 4\<rparr>)"
    by blast
  then have "cursors (step sample_lxml stray_rows 0 start_state) = Inr (2, 4)"
    by (simp add: cursors_def)
  moreover have "current_row start_state = 2" by (simp add: start_state_def)
  ultimately show ?thesis using stray_facts by blast
qed

text \<open>
  C8, as amended. A row with no match of the opening tag pattern and without the text
  \<open><?xml\<close> anywhere in the cell leaves the sheet, the output row cursor and the
  warnings as they are: the pass through the loop body only moves the input cursor by
  one, and the scan goes on from the next row.
\<close>

theorem no_indicator_row_only_advances:
  assumes "\<not> found OPEN_TAG_RE (colA ! i)" and "\<not> contains ''<?xml'' (colA ! i)"
  shows "step lx colA i st = Inr (i + 1, st) \<and>
         (i < length colA \<longrightarrow> scan lx colA i st = scan lx colA (i + 1) st)"
proof -
  have s: "step lx colA i st = Inr (i + 1, st)"
    using assms by (rule step_no_indicator)
  then show ?thesis by (simp add: scan.simps[of lx colA i st])
qed

theorem no_indicator_row_only_advances_witness:
  "\<not> found OPEN_TAG_RE ([''order 4500 </intercompanyMessage>''] ! 0) \<and>
   \<not> contains ''<?xml'' ([''order 4500 </intercompanyMessage>''] ! 0) \<and>
   step sample_lxml [''order 4500 </intercompanyMessage>''] 0 start_state = Inr (1, start_state) \<and>
   scan sample_lxml [''order 4500 </intercompanyMessage>''] 0 start_state =
     scan sample_lxml [''order 4500 </intercompanyMessage>''] 1 start_state"
proof -
  have a: "\<not> found OPEN_TAG_RE ([''order 4500 </intercompanyMessage>''] ! 0)"
    by code_simp
  have b: "\<not> contains ''<?xml'' ([''order 4500 </intercompanyMessage>''] ! 0)"
    by code_simp
  from no_indicator_row_only_advances[OF a b, of sample_lxml start_state] a b
  show ?thesis by simp
qed

text \<open>
  C9. The outer loop of the scanner returns on every list of rows, because every pass
  through its body moves the input cursor forward: to \<open>j + 1\<close>, which is at least
  \<open>i + 2\<close>, when the multi-row path finds a row with a closing tag, and by one on every
  other path.
\<close>

theorem scan_terminates:
  "(\<exists>r. scan lx colA i st = Some r) \<and>
   (\<forall>i' st'. step lx colA i st = Inr (i', st') \<longrightarrow>
      i < i' \<and>
      (if multi_row colA i \<and> closing_row colA i < length colA
       then i' = closing_row colA i + 1 \<and> i + 2 \<le> i' \<and> i' \<le> length colA
       else i' = i + 1))"
  using scan_returns[of lx colA i st] step_next[of lx colA i st] step_increases[of lx colA i st]
  by blast

theorem scan_terminates_witness:
  "step sample_lxml declaration_rows 0 start_state =
     Inr (2, warn (ExtractionFailed 1 ValueError) start_state) \<and>
   multi_row declaration_rows 0 \<and> closing_row declaration_rows 0 = 1 \<and>
   length declaration_rows = 2 \<and>
   (\<exists>r. scan sample_lxml declaration_rows 0 start_state = Some r)"
proof -
  have l: "length declaration_rows = 2" by (simp add: declaration_rows_def)
  from scan_terminates[of sample_lxml declaration_rows 0 start_state]
  have r: "\<exists>r. scan sample_lxml declaration_rows 0 start_state = Some r"
    and n: "if multi_row declaration_rows 0 \<and> closing_row declaration_rows 0 < length declaration_rows
       then 2 = closing_row declaration_rows 0 + 1 \<and> 0 + 2 \<le> (2::nat) \<and> 2 \<le> length declaration_rows
       else 2 = 0 + (1::nat)"
    using declaration_step by blast+
  from n have "closing_row declaration_rows 0 = 1" by (auto split: if_splits)
  with declaration_step declaration_facts l r show ?thesis by blast
qed

text \<open>
  C10. A call of the extractor that returns leaves every cell outside the rows
  \<open>r\<close> to \<open>r + N - 1\<close> and the columns 1 to 20 as it was, and the loop that writes the
  rows puts the empty text where the list of a per-line column is too short.
\<close>

theorem extractor_frame:
  assumes "fromstring lx xml_content = Inr (Some root)"
    and "process_xml_and_populate_xl_sheet lx xml_content sh r = Inr (sh', r')"
  shows "r' = r + length (xpath_nodes lx root ''//purchaseOrder//lineItems//lineItem'') \<and>
         (\<forall>r0 c. \<not> (r \<le> r0 \<and> r0 < r' \<and> 1 \<le> c \<and> c \<le> 20) \<longrightarrow> sh' (r0, c) = sh (r0, c)) \<and>
         (\<forall>data n k c vs. k < n \<and> c < length data \<and> data ! c = PerLine vs \<and> length vs \<le> k \<longrightarrow>
            fst (write_rows data n sh r) (r + k, c + 1) = Some [])"
proof -
  from process_Inr[OF assms] obtain data where
    c: "column_data lx root = Inr (data, length (xpath_nodes lx root ''//purchaseOrder//lineItems//lineItem''))"
    and s: "sh' = fst (write_rows data (length (xpath_nodes lx root ''//purchaseOrder//lineItems//lineItem'')) sh r)"
    and r: "r' = r + length (xpath_nodes lx root ''//purchaseOrder//lineItems//lineItem'')"
    by blast
  from column_data_Inr(1)[OF c] have len: "length data = 20" .
  have f: "\<forall>r0 c. \<not> (r \<le> r0 \<and> r0 < r' \<and> 1 \<le> c \<and> c \<le> 20) \<longrightarrow> sh' (r0, c) = sh (r0, c)"
    unfolding s r by (simp add: write_rows_apply len)
  have d: "\<forall>data n k c vs. k < n \<and> c < length data \<and> data ! c = PerLine vs \<and> length vs \<le> k \<longrightarrow>
            fst (write_rows data n sh r) (r + k, c + 1) = Some []"
    by (simp add: write_rows_apply cell_value_def)
  from r f d show ?thesis by blast
qed

theorem extractor_frame_witness:
  "fromstring sample_lxml message_A = Inr (Some tree_A) \<and>
   (\<exists>sh'. process_xml_and_populate_xl_sheet sample_lxml message_A header_sheet 2 = Inr (sh', 4) \<and>
      sh' (1, 1) = header_sheet (1, 1) \<and> sh' (2, 21) = header_sheet (2, 21) \<and>
      sh' (4, 3) = header_sheet (4, 3)) \<and>
   fst (write_rows [PerLine [''x'']] 2 header_sheet 2) (3, 1) = Some []"
proof -
  from process_returns[OF parse_A conv_A, of header_sheet 2] items_A
  obtain sh' where p: "process_xml_and_populate_xl_sheet sample_lxml message_A header_sheet 2 = Inr (sh', 4)"
    by auto
  from extractor_frame[OF parse_A p]
  have f: "\<forall>r0 c. \<not> (2 \<le> r0 \<and> r0 < 4 \<and> 1 \<le> c \<and> c \<le> 20) \<longrightarrow> sh' (r0, c) = header_sheet (r0, c)"
    and d: "\<forall>data n k c vs. k < n \<and> c < length data \<and> data ! c = PerLine vs \<and> length vs \<le> k \<longrightarrow>
              fst (write_rows data n header_sheet 2) (2 + k, c + 1) = Some []"
    by blast+
  from f[rule_format, of 1 1] have f1: "sh' (1, 1) = header_sheet (1, 1)" by simp
  from f[rule_format, of 2 21] have f2: "sh' (2, 21) = header_sheet (2, 21)" by simp
  from f[rule_format, of 4 3] have f3: "sh' (4, 3) = header_sheet (4, 3)" by simp
  from d[rule_format, of 1 2 0 "[PerLine [''x'']]" "[''x'']"]
  have d1: "fst (write_rows [PerLine [''x'']] 2 header_sheet 2) (3, 1) = Some []" by simp
  from parse_A p f1 f2 f3 d1 show ?thesis by blast
qed

end
